theory Spec2Isabelle
  imports Main "HOL-Library.Char_ord" "HOL-Library.Sublist"
begin

section \<open>JavaScript strings\<close>

text \<open>
  The source is JavaScript. A string is modelled as a \<^typ>\<open>string\<close>, a list of 8-bit
  characters read as the code points U+0000 to U+00FF (Latin-1): on these the string
  operations used by \<^verbatim>\<open>order-automation.js\<close> keep the length of a string and stay
  inside the range. Code points above U+00FF are outside the model.
\<close>

definition isDigit :: "char \<Rightarrow> bool" where
  \<comment> \<open>the class \<^verbatim>\<open>\d\<close>: the ten ASCII digits\<close>
  "isDigit c \<longleftrightarrow> CHR ''0'' \<le> c \<and> c \<le> CHR ''9''"

definition isSpace :: "char \<Rightarrow> bool" where
  \<comment> \<open>the class \<^verbatim>\<open>\s\<close> and what \<^verbatim>\<open>trim()\<close> strips: TAB, LF, VT, FF, CR, SPACE, NBSP\<close>
  "isSpace c \<longleftrightarrow>
     c \<in> set [CHR 0x09, CHR 0x0A, CHR 0x0B, CHR 0x0C, CHR 0x0D, CHR '' '', CHR 0xA0]"

definition isLineTerminator :: "char \<Rightarrow> bool" where
  \<comment> \<open>the characters \<^verbatim>\<open>.\<close> does not match\<close>
  "isLineTerminator c \<longleftrightarrow> c = CHR 0x0A \<or> c = CHR 0x0D"

definition isWordChar :: "char \<Rightarrow> bool" where
  \<comment> \<open>the class \<^verbatim>\<open>\w\<close>, which decides \<^verbatim>\<open>\b\<close>\<close>
  "isWordChar c \<longleftrightarrow>
     (CHR ''a'' \<le> c \<and> c \<le> CHR ''z'') \<or> (CHR ''A'' \<le> c \<and> c \<le> CHR ''Z'')
     \<or> (CHR ''0'' \<le> c \<and> c \<le> CHR ''9'') \<or> c = CHR ''_''"

fun setBit5 :: "bool \<Rightarrow> char \<Rightarrow> char" where
  \<comment> \<open>bit 5 has the value 32: the distance between a capital and its small letter\<close>
  "setBit5 v (Char b0 b1 b2 b3 b4 b5 b6 b7) = Char b0 b1 b2 b3 b4 v b6 b7"

definition toLowerChar :: "char \<Rightarrow> char" where
  \<comment> \<open>A-Z, and the Latin-1 capitals U+00C0..U+00DE without the multiplication sign\<close>
  "toLowerChar c =
     (if (CHR ''A'' \<le> c \<and> c \<le> CHR ''Z'')
         \<or> (CHR 0xC0 \<le> c \<and> c \<le> CHR 0xDE \<and> c \<noteq> CHR 0xD7)
      then setBit5 True c else c)"

definition toUpperChar :: "char \<Rightarrow> char" where
  \<comment> \<open>the canonical form of a character under the flag \<^verbatim>\<open>i\<close>: a-z, and U+00E0..U+00FE
      without the division sign; the capitals of U+00B5, U+00DF and U+00FF lie outside
      Latin-1 or are two letters, so these three have no partner here\<close>
  "toUpperChar c =
     (if (CHR ''a'' \<le> c \<and> c \<le> CHR ''z'')
         \<or> (CHR 0xE0 \<le> c \<and> c \<le> CHR 0xFE \<and> c \<noteq> CHR 0xF7)
      then setBit5 False c else c)"

definition toLowerCase :: "string \<Rightarrow> string" where
  "toLowerCase s = map toLowerChar s"

definition trim :: "string \<Rightarrow> string" where
  "trim s = rev (dropWhile isSpace (rev (dropWhile isSpace s)))"

fun indexOfFrom :: "string \<Rightarrow> string \<Rightarrow> int \<Rightarrow> int" where
  "indexOfFrom pat [] i = (if pat = [] then i else - 1)"
| "indexOfFrom pat (c # cs) i =
     (if prefix pat (c # cs) then i else indexOfFrom pat cs (i + 1))"

definition indexOf :: "string \<Rightarrow> string \<Rightarrow> int" where
  \<comment> \<open>\<^verbatim>\<open>s.indexOf(pat)\<close>: where \<open>pat\<close> first occurs in \<open>s\<close>, or -1\<close>
  "indexOf s pat = indexOfFrom pat s 0"

definition includesStr :: "string \<Rightarrow> string \<Rightarrow> bool" where
  "includesStr s pat \<longleftrightarrow> indexOf s pat \<noteq> - 1"

definition substring :: "string \<Rightarrow> int \<Rightarrow> int \<Rightarrow> string" where
  \<comment> \<open>\<^verbatim>\<open>s.substring(a, b)\<close> for \<open>0 \<le> a \<le> b\<close>, the only way the source calls it\<close>
  "substring s a b = take (nat b - nat a) (drop (nat a) s)"

definition substringFrom :: "string \<Rightarrow> int \<Rightarrow> string" where
  \<comment> \<open>\<^verbatim>\<open>s.substring(a)\<close>\<close>
  "substringFrom s a = drop (nat a) s"

fun splitChar :: "char \<Rightarrow> string \<Rightarrow> string list" where
  \<comment> \<open>\<^verbatim>\<open>s.split(sep)\<close> for a separator of one character\<close>
  "splitChar sep [] = [[]]"
| "splitChar sep (c # cs) =
     (let r = splitChar sep cs in if c = sep then [] # r else (c # hd r) # tl r)"

definition digitVal :: "char \<Rightarrow> nat" where
  "digitVal c = of_char c - 48"

definition parseInt :: "string \<Rightarrow> nat" where
  \<comment> \<open>\<^verbatim>\<open>parseInt\<close> on a string of decimal digits (the source passes it the capture of
      \<^verbatim>\<open>\d+\<close> only). The model keeps the exact natural number. A JavaScript number is a
      double: the code has this value when it is below \<open>2^53\<close>; a greater value is rounded
      to a double there (to \<^verbatim>\<open>Infinity\<close> for a very long string), which the model does
      not follow. What is proved about a quantity is stated for values below \<open>2^53\<close>.\<close>
  "parseInt ds = foldl (\<lambda>n c. 10 * n + digitVal c) 0 ds"


section \<open>Regular expressions\<close>

text \<open>
  \<^verbatim>\<open>RegExp\<close> is a backtracking matcher: at a position it tries the alternatives of the
  pattern in a fixed order and takes the first way through that succeeds. The function
  \<open>ms\<close> returns all the ways a pattern can match at a state, in that order, so
  that the first element is the match JavaScript reports. A state is the text before the
  position (nearest character first), the text from the position on, and the captures
  made so far (last capture first).
\<close>

datatype citem = CChar char | CRange char char | CDigit | CSpace

datatype re =
    Eps
  | Lit char              \<comment> \<open>a pattern character\<close>
  | AnyCh                 \<comment> \<open>\<^verbatim>\<open>.\<close>\<close>
  | Cls "citem list"      \<comment> \<open>\<^verbatim>\<open>[...]\<close>, \<^verbatim>\<open>\d\<close>, \<^verbatim>\<open>\s\<close>\<close>
  | Cat re re
  | Alt re re             \<comment> \<open>\<^verbatim>\<open>r1|r2\<close>\<close>
  | Star re               \<comment> \<open>\<^verbatim>\<open>r*\<close>, greedy\<close>
  | Opt re                \<comment> \<open>\<^verbatim>\<open>r?\<close>, greedy\<close>
  | Grp nat re            \<comment> \<open>the capture group of that number\<close>
  | Bol                   \<comment> \<open>\<^verbatim>\<open>^\<close>\<close>
  | Eol                   \<comment> \<open>\<^verbatim>\<open>$\<close>\<close>
  | WordB                 \<comment> \<open>\<^verbatim>\<open>\b\<close>\<close>

record flags =
  ignoreCase :: bool
  multiline :: bool

type_synonym mstate = "string \<times> string \<times> (nat \<times> string) list"

fun inItem :: "citem \<Rightarrow> char \<Rightarrow> bool" where
  "inItem (CChar a) c = (c = a)"
| "inItem (CRange lo hi) c = (lo \<le> c \<and> c \<le> hi)"
| "inItem CDigit c = isDigit c"
| "inItem CSpace c = isSpace c"

definition inClass :: "flags \<Rightarrow> citem list \<Rightarrow> char \<Rightarrow> bool" where
  \<comment> \<open>Under \<^verbatim>\<open>i\<close> a character is in the class when a member has its canonical form; the
      members with the canonical form of \<open>c\<close> are \<open>c\<close>, its capital and its small letter.\<close>
  "inClass f its c =
     (if ignoreCase f
      then list_ex (\<lambda>it. inItem it c \<or> inItem it (toUpperChar c) \<or> inItem it (toLowerChar c)) its
      else list_ex (\<lambda>it. inItem it c) its)"

definition litMatch :: "flags \<Rightarrow> char \<Rightarrow> char \<Rightarrow> bool" where
  "litMatch f a c = (if ignoreCase f then toUpperChar a = toUpperChar c else a = c)"

fun remaining :: "mstate \<Rightarrow> nat" where
  "remaining (b, s, g) = length s"

fun step1 :: "(char \<Rightarrow> bool) \<Rightarrow> mstate \<Rightarrow> mstate list" where
  "step1 p (b, [], g) = []"
| "step1 p (b, c # cs, g) = (if p c then [(c # b, cs, g)] else [])"

fun capture :: "nat \<Rightarrow> mstate \<Rightarrow> mstate \<Rightarrow> mstate" where
  \<comment> \<open>group \<open>n\<close> opened at the first state and closed at the second\<close>
  "capture n (b, s, g) (b', s', g') = (b', s', (n, take (length s - length s') s) # g')"

fun atBol :: "flags \<Rightarrow> mstate \<Rightarrow> bool" where
  "atBol f (b, s, g) = (case b of [] \<Rightarrow> True | c # _ \<Rightarrow> multiline f \<and> isLineTerminator c)"

fun atEol :: "flags \<Rightarrow> mstate \<Rightarrow> bool" where
  "atEol f (b, s, g) = (case s of [] \<Rightarrow> True | c # _ \<Rightarrow> multiline f \<and> isLineTerminator c)"

fun atWordB :: "mstate \<Rightarrow> bool" where
  "atWordB (b, s, g) =
     ((case b of [] \<Rightarrow> False | c # _ \<Rightarrow> isWordChar c)
      \<noteq> (case s of [] \<Rightarrow> False | c # _ \<Rightarrow> isWordChar c))"

function ms :: "flags \<Rightarrow> re \<Rightarrow> mstate \<Rightarrow> mstate list" where
  "ms f Eps x = [x]"
| "ms f (Lit a) x = step1 (litMatch f a) x"
| "ms f AnyCh x = step1 (\<lambda>c. \<not> isLineTerminator c) x"
| "ms f (Cls its) x = step1 (inClass f its) x"
| "ms f (Cat r1 r2) x = concat (map (ms f r2) (ms f r1 x))"
| "ms f (Alt r1 r2) x = ms f r1 x @ ms f r2 x"
| "ms f (Star r) x =
     concat (map (ms f (Star r)) (filter (\<lambda>y. remaining y < remaining x) (ms f r x))) @ [x]"
| "ms f (Opt r) x = filter (\<lambda>y. remaining y < remaining x) (ms f r x) @ [x]"
| "ms f (Grp n r) x = map (capture n x) (ms f r x)"
| "ms f Bol x = (if atBol f x then [x] else [])"
| "ms f Eol x = (if atEol f x then [x] else [])"
| "ms f WordB x = (if atWordB x then [x] else [])"
  by pat_completeness auto
termination
  by (relation "measures [\<lambda>(f, r, x). size r, \<lambda>(f, r, x). remaining x]") auto

text \<open>
  An iteration of \<^verbatim>\<open>*\<close> or \<^verbatim>\<open>?\<close> that consumes nothing is rejected, as in the
  language's definition.
\<close>

definition Plus :: "re \<Rightarrow> re" where
  \<comment> \<open>\<^verbatim>\<open>r+\<close>\<close>
  "Plus r = Cat r (Star r)"

definition AtLeast :: "nat \<Rightarrow> re \<Rightarrow> re" where
  \<comment> \<open>\<^verbatim>\<open>r{n,}\<close>\<close>
  "AtLeast n r = foldr Cat (replicate n r) (Star r)"

definition Exactly :: "nat \<Rightarrow> re \<Rightarrow> re" where
  \<comment> \<open>\<^verbatim>\<open>r{n}\<close>\<close>
  "Exactly n r = foldr Cat (replicate n r) Eps"

fun cats :: "re list \<Rightarrow> re" where
  "cats [] = Eps"
| "cats [r] = r"
| "cats (r # rs) = Cat r (cats rs)"

definition lits :: "string \<Rightarrow> re" where
  "lits s = cats (map Lit s)"

fun searchFrom :: "flags \<Rightarrow> re \<Rightarrow> string \<Rightarrow> string \<Rightarrow> mstate option" where
  \<comment> \<open>the leftmost position from which the pattern matches, and its first match there\<close>
  "searchFrom f r b [] = (case ms f r (b, [], []) of [] \<Rightarrow> None | y # _ \<Rightarrow> Some y)"
| "searchFrom f r b (c # cs) =
     (case ms f r (b, c # cs, []) of [] \<Rightarrow> searchFrom f r (c # b) cs | y # _ \<Rightarrow> Some y)"

definition regexMatch :: "flags \<Rightarrow> re \<Rightarrow> string \<Rightarrow> mstate option" where
  \<comment> \<open>\<^verbatim>\<open>s.match(re)\<close> for a pattern without the flag \<^verbatim>\<open>g\<close>: None is \<^verbatim>\<open>null\<close>\<close>
  "regexMatch f r s = searchFrom f r [] s"

fun grp :: "nat \<Rightarrow> mstate \<Rightarrow> string option" where
  \<comment> \<open>\<^verbatim>\<open>match[n]\<close>: None is \<^verbatim>\<open>undefined\<close>\<close>
  "grp n (b, s, g) = map_of g n"

function splitLoop :: "flags \<Rightarrow> re \<Rightarrow> string \<Rightarrow> string \<Rightarrow> string \<Rightarrow> string list" where
  "splitLoop f r b acc [] = [rev acc]"
| "splitLoop f r b acc (c # cs) =
     (case ms f r (acc @ b, c # cs, []) of
        [] \<Rightarrow> splitLoop f r b (c # acc) cs
      | (b', s', g') # _ \<Rightarrow>
          if length s' < length (c # cs) then rev acc # splitLoop f r b' [] s'
          else if acc = [] then splitLoop f r b (c # acc) cs
          else rev acc # splitLoop f r (acc @ b) [] (c # cs))"
  by pat_completeness auto
termination
  by (relation "measures [\<lambda>(f, r, b, acc, s). length s, \<lambda>(f, r, b, acc, s). length acc]") auto

definition splitRe :: "flags \<Rightarrow> re \<Rightarrow> string \<Rightarrow> string list" where
  \<comment> \<open>\<^verbatim>\<open>s.split(re)\<close> for a pattern without capture groups. \<open>acc\<close> holds the piece being
      read (last character first): the text between the end of the last separator and
      the position tried. A match that ends where the piece starts is skipped.\<close>
  "splitRe f r s =
     (if s = [] then (if ms f r ([], [], []) = [] then [[]] else [])
      else splitLoop f r [] [] s)"


section \<open>The item parser\<close>

record parsedItem =
  raw :: string
  name :: string
  quantity :: nat
  modifications :: "string list"

definition noFlags :: flags where
  "noFlags = \<lparr>ignoreCase = False, multiline = False\<rparr>"

definition qtyPattern :: re where
  \<comment> \<open>\<^verbatim>\<open>/^(\d+)\s+(.+)/\<close>\<close>
  "qtyPattern = cats [Bol, Grp 1 (Plus (Cls [CDigit])), Plus (Cls [CSpace]), Grp 2 (Plus AnyCh)]"

definition modsPattern :: re where
  \<comment> \<open>\<^verbatim>\<open>/\s+and\s+|\s*,\s*/\<close>\<close>
  "modsPattern =
     Alt (cats [Plus (Cls [CSpace]), lits ''and'', Plus (Cls [CSpace])])
         (cats [Star (Cls [CSpace]), Lit CHR '','', Star (Cls [CSpace])])"

definition normalizeName :: "string \<Rightarrow> string" where
  \<comment> \<open>"Normalize common item names": the chain of \<^verbatim>\<open>if\<close>/\<^verbatim>\<open>else if\<close> that ends
      \<^verbatim>\<open>parseOrderItems\<close>, on the name found so far\<close>
  "normalizeName nm =
     (let nameLower = toLowerCase nm in
      if includesStr nameLower ''bruschetta'' then ''Bruschetta''
      else if includesStr nameLower ''wing'' then
        (if includesStr nameLower ''1lb'' \<or> includesStr nameLower ''one lb''
         then ''1lb Wings'' else ''2lb Wings'')
      else if includesStr nameLower ''quesadilla'' then ''Quesadilla''
      else if includesStr nameLower ''burger'' then ''Angus Burger''
      else if includesStr nameLower ''caesar'' then ''Caesar Salad''
      else if includesStr nameLower ''garlic bread'' then ''Garlic Bread W/cheese''
      else nm)"

definition stripQuantity :: "string \<Rightarrow> nat \<times> string" where
  \<comment> \<open>"Extract quantity if specified": the quantity and the text that is left. Both
      groups of the pattern take part in every match, so the last case is never taken.\<close>
  "stripQuantity item =
     (case regexMatch noFlags qtyPattern item of
        None \<Rightarrow> (1, item)
      | Some qtyMatch \<Rightarrow>
          (case (grp 1 qtyMatch, grp 2 qtyMatch) of
             (Some q, Some rest) \<Rightarrow> (parseInt q, rest)
           | _ \<Rightarrow> (1, item)))"

definition candidateName :: "string \<Rightarrow> string" where
  \<comment> \<open>"Extract main item name": the value of \<^verbatim>\<open>parsed.name\<close> before it is normalized\<close>
  "candidateName item =
     (let withIndex = indexOf (toLowerCase item) '' with '' in
      if withIndex > - 1 then trim (substring item 0 withIndex) else trim item)"

definition itemModifications :: "string \<Rightarrow> string list" where
  "itemModifications item =
     (let withIndex = indexOf (toLowerCase item) '' with '' in
      if withIndex > - 1
      then map trim (splitRe noFlags modsPattern (trim (substringFrom item (withIndex + 6))))
      else [])"

definition parseItem :: "string \<Rightarrow> parsedItem" where
  \<comment> \<open>the function mapped over the segments\<close>
  "parseItem item =
     (let (qty, item') = stripQuantity item in
      \<lparr>raw = item, name = normalizeName (candidateName item'), quantity = qty,
       modifications = itemModifications item'\<rparr>)"

definition parseOrderItems :: "string \<Rightarrow> parsedItem list" where
  "parseOrderItems orderItemsString =
     map parseItem (map trim (splitChar CHR '','' orderItemsString))"


section \<open>The browser\<close>

text \<open>
  The pipeline drives a browser through Puppeteer. The browser and the site are not part
  of the repository: every call the code makes to them is recorded as an \<open>action\<close>, and
  what the call returns is given by an oracle that sees all the calls made so far, the
  call being made last. A call returns a value of its documented type or throws an
  \<^verbatim>\<open>Error\<close>, of which the model keeps the message. The functions the code sends into
  the page (\<^verbatim>\<open>page.evaluate\<close>) run against the site's document; each is named by a
  \<open>script\<close>.
\<close>

datatype script =
    FindItemExact string       \<comment> \<open>\<^verbatim>\<open>findAndClickItem\<close>, method 1\<close>
  | ClickItemPartial string    \<comment> \<open>\<^verbatim>\<open>findAndClickItem\<close>, method 2\<close>
  | HasRequiredSelection
  | FindRegularButton
  | ClickModification string
  | ClickPlus
  | ClickAddToCartButton
  | ClickCheckoutButton
  | ClickContinueAsGuest
  | ClickGuestSubmit
  | CheckoutPageShown
  | CashSelected
  | SelectCash
  | ClickPlaceOrder
  | OrderPlacedShown
  | BodyText

datatype action =
    Launch
  | NewPage
  | SetViewport
  | SetUserAgent
  | Goto string
  | WaitForTimeout nat
  | Screenshot
  | EvaluateHandle script
  | Evaluate script
  | XPath string
  | ClickHandle nat
  | Query string              \<comment> \<open>\<^verbatim>\<open>page.$(selector)\<close>\<close>
  | ClickSelector string      \<comment> \<open>\<^verbatim>\<open>page.click(selector)\<close>\<close>
  | TypeInto nat string       \<comment> \<open>\<^verbatim>\<open>handle.type(text, ...)\<close>\<close>
  | WaitForFunction script nat
  | Pages
  | Content
  | Close

record env =
  unitResp :: "action list \<Rightarrow> string option"         \<comment> \<open>a call without a result; a message when it throws\<close>
  textResp :: "action list \<Rightarrow> string + string"
  boolResp :: "action list \<Rightarrow> string + bool"
  handleResp :: "action list \<Rightarrow> string + nat option"  \<comment> \<open>an element handle, or \<^verbatim>\<open>null\<close>\<close>
  handlesResp :: "action list \<Rightarrow> string + nat list"
  clock :: "action list \<Rightarrow> string"                    \<comment> \<open>\<^verbatim>\<open>new Date().toISOString()\<close>\<close>

record orderResult =
  success :: bool
  confirmationNumber :: "string option"
  estimatedPickupTime :: "string option"
  totalAmount :: "string option"
  error :: "string option"
  screenshots :: "(string \<times> string \<times> string) list"   \<comment> \<open>name, data, timestamp\<close>
  errorPageHTML :: "string option"

text \<open>
  The field \<^verbatim>\<open>stack\<close> of the result (the engine's stack trace) is left out. The pipeline
  works on one result object and one browser; both are the state of the model.
\<close>

record world =
  history :: "action list"
  res :: orderResult

type_synonym 'a io = "world \<Rightarrow> (string + 'a) \<times> world"

definition ioReturn :: "'a \<Rightarrow> 'a io" where
  "ioReturn x w = (Inr x, w)"

definition ioThrow :: "string \<Rightarrow> 'a io" where
  "ioThrow m w = (Inl m, w)"

definition ioBind :: "'a io \<Rightarrow> ('a \<Rightarrow> 'b io) \<Rightarrow> 'b io" where
  "ioBind m k w = (case m w of (Inl e, w') \<Rightarrow> (Inl e, w') | (Inr x, w') \<Rightarrow> k x w')"

definition ioThen :: "'a io \<Rightarrow> 'b io \<Rightarrow> 'b io" where
  "ioThen m n = ioBind m (\<lambda>_. n)"

definition ioCatch :: "'a io \<Rightarrow> (string \<Rightarrow> 'a io) \<Rightarrow> 'a io" where
  \<comment> \<open>\<^verbatim>\<open>try { m } catch (error) { handler(error.message) }\<close>\<close>
  "ioCatch m handler w = (case m w of (Inl e, w') \<Rightarrow> handler e w' | (Inr x, w') \<Rightarrow> (Inr x, w'))"

fun ioSeq :: "unit io list \<Rightarrow> unit io" where
  "ioSeq [] = ioReturn ()"
| "ioSeq (m # rest) = ioThen m (ioSeq rest)"

definition callUnit :: "env \<Rightarrow> action \<Rightarrow> unit io" where
  "callUnit e a w =
     (let h = history w @ [a] in
      (case unitResp e h of None \<Rightarrow> Inr () | Some m \<Rightarrow> Inl m, w\<lparr>history := h\<rparr>))"

definition callText :: "env \<Rightarrow> action \<Rightarrow> string io" where
  "callText e a w = (let h = history w @ [a] in (textResp e h, w\<lparr>history := h\<rparr>))"

definition callBool :: "env \<Rightarrow> action \<Rightarrow> bool io" where
  "callBool e a w = (let h = history w @ [a] in (boolResp e h, w\<lparr>history := h\<rparr>))"

definition callHandle :: "env \<Rightarrow> action \<Rightarrow> nat option io" where
  "callHandle e a w = (let h = history w @ [a] in (handleResp e h, w\<lparr>history := h\<rparr>))"

definition callHandles :: "env \<Rightarrow> action \<Rightarrow> nat list io" where
  "callHandles e a w = (let h = history w @ [a] in (handlesResp e h, w\<lparr>history := h\<rparr>))"

definition clickHandle :: "env \<Rightarrow> nat option \<Rightarrow> unit io" where
  \<comment> \<open>\<^verbatim>\<open>handle.click()\<close>; a handle that holds no element has no such method\<close>
  "clickHandle e h =
     (case h of None \<Rightarrow> ioThrow ''click is not a function''
      | Some n \<Rightarrow> callUnit e (ClickHandle n))"

record config =
  restaurantURL :: string
  botEmail :: string
  botLastName :: string
  headless :: bool
  timeout :: nat
  screenshotOnError :: bool
  defaultWaitTime :: nat

definition CONFIG :: config where
  "CONFIG = \<lparr>restaurantURL = ''https://order.tbdine.com/pickup/48684/menu'',
             botEmail = ''yousef.alyeldin5@gmial.com'',
             botLastName = ''PAM'',
             headless = True,
             timeout = 30000,
             screenshotOnError = True,
             defaultWaitTime = 2000\<rparr>"

definition pushScreenshot :: "env \<Rightarrow> string \<Rightarrow> string \<Rightarrow> unit io" where
  "pushScreenshot e nm shot w =
     (Inr (), w\<lparr>res := (res w)\<lparr>screenshots :=
                  screenshots (res w) @ [(nm, shot, clock e (history w))]\<rparr>\<rparr>)"

definition takeScreenshot :: "env \<Rightarrow> string \<Rightarrow> unit io" where
  "takeScreenshot e nm =
     (if \<not> screenshotOnError CONFIG then ioReturn ()
      else ioCatch (ioBind (callText e Screenshot) (pushScreenshot e nm))
                   (\<lambda>_. ioReturn ()))"


section \<open>The cart builder\<close>

definition lowerXPath :: "string \<Rightarrow> string" where
  "lowerXPath nm =
     ''//*[contains(translate(text(), 'ABCDEFGHIJKLMNOPQRSTUVWXYZ', 'abcdefghijklmnopqrstuvwxyz'), ''
     @ [CHR 0x27] @ toLowerCase nm @ [CHR 0x27] @ '')]''"

definition findAndClickItem :: "env \<Rightarrow> parsedItem \<Rightarrow> unit io" where
  \<comment> \<open>each method answers whether the function has returned\<close>
  "findAndClickItem e item =
     ioBind (ioCatch (ioBind (callHandle e (EvaluateHandle (FindItemExact (name item))))
                        (\<lambda>itemButton. ioThen (clickHandle e itemButton) (ioReturn True)))
                     (\<lambda>_. ioReturn False))
     (\<lambda>returned1. if returned1 then ioReturn () else
     ioBind (ioCatch (ioThen (callUnit e (Evaluate (ClickItemPartial (name item))))
                        (ioReturn True))
                     (\<lambda>_. ioReturn False))
     (\<lambda>returned2. if returned2 then ioReturn () else
     ioBind (ioCatch (ioBind (callHandles e (XPath (lowerXPath (name item))))
                        (\<lambda>elements. case elements of
                             [] \<Rightarrow> ioReturn False
                           | el # _ \<Rightarrow> ioThen (callUnit e (ClickHandle el)) (ioReturn True)))
                     (\<lambda>_. ioReturn False))
     (\<lambda>returned3. if returned3 then ioReturn () else
     ioThrow (''Could not find menu item: '' @ name item))))"

fun applyModifications :: "env \<Rightarrow> string list \<Rightarrow> unit io" where
  "applyModifications e [] = ioReturn ()"
| "applyModifications e (m # rest) =
     ioThen (ioCatch (ioThen (callUnit e (Evaluate (ClickModification m)))
                             (callUnit e (WaitForTimeout 500)))
                     (\<lambda>_. ioReturn ()))
            (applyModifications e rest)"

fun increaseQuantity :: "env \<Rightarrow> nat \<Rightarrow> unit io" where
  \<comment> \<open>the loop \<^verbatim>\<open>for (let i = 1; i < item.quantity; i++)\<close>, by the number of rounds left;
      a round that throws ends the loop. The counter of the source is a double: the rounds
      are those of the code for a quantity below \<open>2^53\<close>.\<close>
  "increaseQuantity e 0 = ioReturn ()"
| "increaseQuantity e (Suc n) =
     ioBind (ioCatch (ioThen (ioThen (callUnit e (Evaluate ClickPlus))
                                     (callUnit e (WaitForTimeout 500)))
                             (ioReturn True))
                     (\<lambda>_. ioReturn False))
            (\<lambda>ok. if ok then increaseQuantity e n else ioReturn ())"

definition handleItemModal :: "env \<Rightarrow> parsedItem \<Rightarrow> unit io" where
  "handleItemModal e item =
     ioBind (callBool e (Evaluate HasRequiredSelection))
     (\<lambda>hasRequiredSelection.
     ioSeq
      [if hasRequiredSelection
       then ioCatch (ioBind (callHandle e (EvaluateHandle FindRegularButton))
                       (\<lambda>regularButton. ioThen (clickHandle e regularButton)
                                                (callUnit e (WaitForTimeout 500))))
                    (\<lambda>_. ioReturn ())
       else ioReturn (),
       if length (modifications item) > 0
       then applyModifications e (modifications item) else ioReturn (),
       if quantity item > 1
       then increaseQuantity e (quantity item - 1) else ioReturn ()])"

fun clickFirstSelector :: "env \<Rightarrow> string list \<Rightarrow> unit io" where
  "clickFirstSelector e [] = ioThrow ''Could not find Add to Cart button''"
| "clickFirstSelector e (selector # rest) =
     ioCatch (callUnit e (ClickSelector selector)) (\<lambda>_. clickFirstSelector e rest)"

definition addButtonSelectors :: "string list" where
  "addButtonSelectors =
     [''button[class*=\"add-to-cart\"]'', ''button[class*=\"AddToCart\"]'', ''.add-button'',
      ''button.teal'', ''button[type=\"submit\"]'']"

definition clickAddToCart :: "env \<Rightarrow> unit io" where
  "clickAddToCart e =
     ioCatch (callUnit e (Evaluate ClickAddToCartButton))
             (\<lambda>_. clickFirstSelector e addButtonSelectors)"

definition attemptItem :: "env \<Rightarrow> parsedItem \<Rightarrow> unit io" where
  \<comment> \<open>the \<^verbatim>\<open>try\<close> block in the loop of \<^verbatim>\<open>addItemsToCart\<close>\<close>
  "attemptItem e item =
     ioSeq [findAndClickItem e item,
            callUnit e (WaitForTimeout 2000),
            handleItemModal e item,
            clickAddToCart e,
            callUnit e (WaitForTimeout 1500)]"

definition addItem :: "env \<Rightarrow> parsedItem \<Rightarrow> unit io" where
  \<comment> \<open>the body of the loop: the \<^verbatim>\<open>try\<close> block and its \<^verbatim>\<open>catch\<close>\<close>
  "addItem e item =
     ioCatch (attemptItem e item)
             (\<lambda>m. ioThrow (''Failed to add '' @ name item @ '' to cart: '' @ m))"

fun addItems :: "env \<Rightarrow> parsedItem list \<Rightarrow> unit io" where
  \<comment> \<open>the loop \<^verbatim>\<open>for (let i = 0; i < items.length; i++)\<close>\<close>
  "addItems e [] = ioReturn ()"
| "addItems e (item # rest) = ioThen (addItem e item) (addItems e rest)"

definition addItemsToCart :: "env \<Rightarrow> string \<Rightarrow> unit io" where
  "addItemsToCart e orderItems = addItems e (parseOrderItems orderItems)"


section \<open>The checkout flow\<close>

definition clickCheckout :: "env \<Rightarrow> unit io" where
  "clickCheckout e =
     ioThen (callUnit e (WaitForTimeout 1000))
       (ioCatch (ioThen (callUnit e (Evaluate ClickCheckoutButton))
                        (callUnit e (WaitForTimeout 2000)))
                (\<lambda>m. ioThrow (''Failed to click checkout: '' @ m)))"

definition continueAsGuest :: "env \<Rightarrow> unit io" where
  "continueAsGuest e =
     ioThen (callUnit e (WaitForTimeout 1000))
       (ioCatch (ioThen (callUnit e (Evaluate ClickContinueAsGuest))
                        (callUnit e (WaitForTimeout 2000)))
                (\<lambda>m. ioThrow (''Failed to continue as guest: '' @ m)))"

definition fillField :: "env \<Rightarrow> string \<Rightarrow> string \<Rightarrow> string \<Rightarrow> unit io" where
  \<comment> \<open>the four blocks of \<^verbatim>\<open>fillGuestInfo\<close>: find the input, click it, type the text\<close>
  "fillField e selector missing txt =
     ioBind (callHandle e (Query selector))
       (\<lambda>input. case input of
            None \<Rightarrow> ioThrow missing
          | Some h \<Rightarrow> ioThen (callUnit e (ClickHandle h)) (callUnit e (TypeInto h txt)))"

definition removeNonDigits :: "string \<Rightarrow> string" where
  \<comment> \<open>\<^verbatim>\<open>s.replace(/\D/g, '')\<close>\<close>
  "removeNonDigits s = filter (\<lambda>c. \<not> \<not> isDigit c) s"

definition fillGuestInfo :: "env \<Rightarrow> string \<Rightarrow> string \<Rightarrow> unit io" where
  "fillGuestInfo e customerName customerPhone =
     (let firstName = hd (splitChar CHR '' '' customerName);
          lastName = botLastName CONFIG;
          cleanPhone = removeNonDigits customerPhone
      in ioCatch
           (ioSeq
             [fillField e ''input[placeholder*=\"first name\" i]'' ''First name field not found''
                firstName,
              fillField e ''input[placeholder*=\"last name\" i]'' ''Last name field not found''
                lastName,
              fillField e ''input[placeholder*=\"email\" i]'' ''Email field not found''
                (botEmail CONFIG),
              fillField e ''input[placeholder*=\"phone\" i]'' ''Phone field not found''
                cleanPhone])
           (\<lambda>m. ioThrow (''Failed to fill guest info: '' @ m)))"

definition submitGuestForm :: "env \<Rightarrow> unit io" where
  "submitGuestForm e =
     ioThen (callUnit e (WaitForTimeout 1000))
       (ioCatch (ioSeq [callUnit e (Evaluate ClickGuestSubmit),
                        callUnit e (WaitForTimeout 3000),
                        callUnit e (WaitForFunction CheckoutPageShown 10000)])
                (\<lambda>m. ioThrow (''Failed to submit guest form: '' @ m)))"

definition addPickupNotes :: "env \<Rightarrow> string \<Rightarrow> unit io" where
  "addPickupNotes e instructions =
     ioCatch
       (ioBind (callHandle e (Query
           ''textarea, input[placeholder*=\"Pickup Notes\" i], input[placeholder*=\"notes\" i]''))
          (\<lambda>notesField. case notesField of
               None \<Rightarrow> ioReturn ()
             | Some h \<Rightarrow> ioThen (callUnit e (ClickHandle h))
                                (callUnit e (TypeInto h instructions))))
       (\<lambda>_. ioReturn ())"

definition verifyPaymentMethod :: "env \<Rightarrow> unit io" where
  "verifyPaymentMethod e =
     ioCatch
       (ioBind (callBool e (Evaluate CashSelected))
          (\<lambda>cashSelected.
             if \<not> cashSelected
             then ioThen (callUnit e (Evaluate SelectCash)) (callUnit e (WaitForTimeout 500))
             else ioReturn ()))
       (\<lambda>_. ioReturn ())"


section \<open>Placing the order and reading the confirmation\<close>

definition placeOrderFinal :: "env \<Rightarrow> unit io" where
  "placeOrderFinal e =
     ioCatch (ioThen (callUnit e (Evaluate ClickPlaceOrder))
                     (callUnit e (WaitForFunction OrderPlacedShown 15000)))
             (\<lambda>m. ioThrow (''Failed to place order: '' @ m))"

definition ciFlags :: flags where
  \<comment> \<open>the flag \<^verbatim>\<open>i\<close>\<close>
  "ciFlags = \<lparr>ignoreCase = True, multiline = False\<rparr>"

definition mFlags :: flags where
  \<comment> \<open>the flag \<^verbatim>\<open>m\<close>\<close>
  "mFlags = \<lparr>ignoreCase = False, multiline = True\<rparr>"

definition digit :: re where
  "digit = Cls [CDigit]"

definition space :: re where
  "space = Cls [CSpace]"

definition orderNumberPatterns :: "(flags \<times> re) list" where
  \<comment> \<open>\<^verbatim>\<open>/Order Number:\s*([A-Za-z0-9\-]+)/i\<close>,
      \<^verbatim>\<open>/Order\s*#?\s*:?\s*([A-Za-z0-9\-]+)/i\<close>,
      \<^verbatim>\<open>/#([A-Za-z0-9]{5,})/\<close>,
      \<^verbatim>\<open>/\b([A-Z][a-z]+)\b/\<close>\<close>
  "orderNumberPatterns =
     [(ciFlags, cats [lits ''Order Number:'', Star space,
         Grp 1 (Plus (Cls [CRange CHR ''A'' CHR ''Z'', CRange CHR ''a'' CHR ''z'',
                           CRange CHR ''0'' CHR ''9'', CChar CHR ''-'']))]),
      (ciFlags, cats [lits ''Order'', Star space, Opt (Lit CHR ''#''), Star space,
         Opt (Lit CHR '':''), Star space,
         Grp 1 (Plus (Cls [CRange CHR ''A'' CHR ''Z'', CRange CHR ''a'' CHR ''z'',
                           CRange CHR ''0'' CHR ''9'', CChar CHR ''-'']))]),
      (noFlags, cats [Lit CHR ''#'',
         Grp 1 (AtLeast 5 (Cls [CRange CHR ''A'' CHR ''Z'', CRange CHR ''a'' CHR ''z'',
                                CRange CHR ''0'' CHR ''9'']))]),
      (noFlags, cats [WordB,
         Grp 1 (Cat (Cls [CRange CHR ''A'' CHR ''Z'']) (Plus (Cls [CRange CHR ''a'' CHR ''z'']))),
         WordB])]"

definition minutesPattern :: re where
  \<comment> \<open>\<^verbatim>\<open>\d+[-\s]?\d*\s*minutes?\<close>\<close>
  "minutesPattern =
     cats [Plus digit, Opt (Cls [CChar CHR ''-'', CSpace]), Star digit, Star space,
           lits ''minute'', Opt (Lit CHR ''s'')]"

definition pickupPatterns :: "(flags \<times> re) list" where
  \<comment> \<open>\<^verbatim>\<open>/(\d+[-\s]?\d*\s*minutes?)/i\<close>,
      \<^verbatim>\<open>/Approximately\s+(\d+[-\s]?\d*\s*minutes?)/i\<close>,
      \<^verbatim>\<open>/(\d+:\d+\s*[AP]M)/i\<close>\<close>
  "pickupPatterns =
     [(ciFlags, Grp 1 minutesPattern),
      (ciFlags, cats [lits ''Approximately'', Plus space, Grp 1 minutesPattern]),
      (ciFlags, Grp 1 (cats [Plus digit, Lit CHR '':'', Plus digit, Star space,
                             Cls [CChar CHR ''A'', CChar CHR ''P''], Lit CHR ''M'']))]"

definition totalPatterns :: "(flags \<times> re) list" where
  \<comment> \<open>\<^verbatim>\<open>/Total[:\s]+\$?([\d,]+\.?\d*)/i\<close>,
      \<^verbatim>\<open>/\$(\d+\.\d{2})\s*$/m\<close>\<close>
  "totalPatterns =
     [(ciFlags, cats [lits ''Total'', Plus (Cls [CChar CHR '':'', CSpace]), Opt (Lit CHR ''$''),
         Grp 1 (cats [Plus (Cls [CDigit, CChar CHR '','']), Opt (Lit CHR ''.''), Star digit])]),
      (mFlags, cats [Lit CHR ''$'', Grp 1 (cats [Plus digit, Lit CHR ''.'', Exactly 2 digit]),
         Star space, Eol])]"

fun firstMatch :: "(flags \<times> re) list \<Rightarrow> string \<Rightarrow> mstate option" where
  \<comment> \<open>the loop over the patterns, left at the first that matches\<close>
  "firstMatch [] pageText = None"
| "firstMatch ((f, r) # rest) pageText =
     (case regexMatch f r pageText of None \<Rightarrow> firstMatch rest pageText | Some m \<Rightarrow> Some m)"

definition falsy :: "string option \<Rightarrow> bool" where
  \<comment> \<open>\<^verbatim>\<open>!x\<close> for a string, \<^verbatim>\<open>null\<close> or \<^verbatim>\<open>undefined\<close>\<close>
  "falsy x \<longleftrightarrow> (case x of None \<Rightarrow> True | Some s \<Rightarrow> s = [])"

definition setConfirmationNumber :: "string \<Rightarrow> orderResult \<Rightarrow> orderResult" where
  "setConfirmationNumber pageText r =
     (let r1 = (case firstMatch orderNumberPatterns pageText of
                  None \<Rightarrow> r | Some m \<Rightarrow> r\<lparr>confirmationNumber := grp 1 m\<rparr>)
      in if falsy (confirmationNumber r1)
         then r1\<lparr>confirmationNumber := Some ''ORDER_PLACED_NO_NUMBER''\<rparr> else r1)"

definition setPickupTime :: "string \<Rightarrow> orderResult \<Rightarrow> orderResult" where
  "setPickupTime pageText r =
     (let r1 = (case firstMatch pickupPatterns pageText of
                  None \<Rightarrow> r | Some m \<Rightarrow> r\<lparr>estimatedPickupTime := grp 1 m\<rparr>)
      in if falsy (estimatedPickupTime r1)
         then r1\<lparr>estimatedPickupTime := Some ''30-40 minutes''\<rparr> else r1)"

definition setTotalAmount :: "string \<Rightarrow> orderResult \<Rightarrow> orderResult" where
  "setTotalAmount pageText r =
     (case firstMatch totalPatterns pageText of
        None \<Rightarrow> r
      | Some m \<Rightarrow> r\<lparr>totalAmount :=
          Some (''$'' @ (case grp 1 m of None \<Rightarrow> ''undefined'' | Some g \<Rightarrow> g))\<rparr>)"

definition readDetails :: "string \<Rightarrow> unit io" where
  "readDetails pageText w =
     (Inr (), w\<lparr>res := setTotalAmount pageText
                         (setPickupTime pageText (setConfirmationNumber pageText (res w)))\<rparr>)"

definition extractConfirmationDetails :: "env \<Rightarrow> unit io" where
  "extractConfirmationDetails e =
     ioCatch (ioBind (callText e (Evaluate BodyText)) readDetails) (\<lambda>_. ioReturn ())"


section \<open>The pipeline\<close>

record orderData =
  order_items :: string
  customer_name :: string
  customer_phone :: string
  pickup_time :: string
  special_instructions :: "string option"   \<comment> \<open>None: the caller gave none\<close>

definition initialResult :: orderResult where
  "initialResult = \<lparr>success = False, confirmationNumber = None, estimatedPickupTime = None,
     totalAmount = None, error = None, screenshots = [], errorPageHTML = None\<rparr>"

definition hasInstructions :: "string option \<Rightarrow> bool" where
  \<comment> \<open>\<^verbatim>\<open>special_instructions && special_instructions.trim() !== ''\<close>\<close>
  "hasInstructions x \<longleftrightarrow> (case x of None \<Rightarrow> False | Some s \<Rightarrow> s \<noteq> [] \<and> trim s \<noteq> [])"

definition setSuccess :: "unit io" where
  "setSuccess w = (Inr (), w\<lparr>res := (res w)\<lparr>success := True\<rparr>\<rparr>)"

definition setError :: "string \<Rightarrow> unit io" where
  "setError m w = (Inr (), w\<lparr>res := (res w)\<lparr>error := Some m\<rparr>\<rparr>)"

definition setErrorPageHTML :: "string \<Rightarrow> unit io" where
  \<comment> \<open>\<^verbatim>\<open>html.substring(0, 5000)\<close>\<close>
  "setErrorPageHTML html w = (Inr (), w\<lparr>res := (res w)\<lparr>errorPageHTML := Some (take 5000 html)\<rparr>\<rparr>)"

definition orderSteps :: "env \<Rightarrow> orderData \<Rightarrow> unit io list" where
  \<comment> \<open>the \<^verbatim>\<open>try\<close> block of \<^verbatim>\<open>placeOrder\<close> after the browser is launched\<close>
  "orderSteps e od =
     [callUnit e NewPage,
      callUnit e SetViewport,
      callUnit e SetUserAgent,
      callUnit e (Goto (restaurantURL CONFIG)),
      callUnit e (WaitForTimeout 3000),
      takeScreenshot e ''01-homepage'',
      addItemsToCart e (order_items od),
      takeScreenshot e ''02-cart-filled'',
      clickCheckout e,
      takeScreenshot e ''03-checkout-modal'',
      continueAsGuest e,
      takeScreenshot e ''04-guest-form'',
      fillGuestInfo e (customer_name od) (customer_phone od),
      takeScreenshot e ''05-guest-info-filled'',
      submitGuestForm e,
      takeScreenshot e ''06-final-checkout'',
      (if hasInstructions (special_instructions od)
       then addPickupNotes e (case special_instructions od of None \<Rightarrow> [] | Some s \<Rightarrow> s)
       else ioReturn ()),
      verifyPaymentMethod e,
      takeScreenshot e ''07-before-submit'',
      placeOrderFinal e,
      callUnit e (WaitForTimeout 3000),
      takeScreenshot e ''08-confirmation'',
      extractConfirmationDetails e,
      setSuccess]"

definition errorState :: "env \<Rightarrow> string \<Rightarrow> unit io" where
  \<comment> \<open>the \<^verbatim>\<open>catch\<close> block of \<^verbatim>\<open>placeOrder\<close>, the browser being launched\<close>
  "errorState e m =
     ioThen (setError m)
       (if screenshotOnError CONFIG
        then ioCatch
               (ioBind (callHandles e Pages)
                  (\<lambda>pages. if pages = [] then ioReturn ()
                            else ioThen (takeScreenshot e ''99-error-state'')
                                   (ioBind (callText e Content) setErrorPageHTML)))
               (\<lambda>_. ioReturn ())
        else ioReturn ())"

definition ioFinally :: "unit io \<Rightarrow> unit io \<Rightarrow> unit io" where
  \<comment> \<open>\<^verbatim>\<open>try { m } finally { fin }\<close>: an error of \<open>fin\<close> replaces the outcome of \<open>m\<close>\<close>
  "ioFinally m fin w =
     (case m w of (x, w') \<Rightarrow>
        (case fin w' of (Inl e, w'') \<Rightarrow> (Inl e, w'') | (Inr _, w'') \<Rightarrow> (x, w'')))"

definition placeOrder :: "env \<Rightarrow> orderData \<Rightarrow> (string + orderResult) \<times> action list" where
  \<comment> \<open>Inl: the promise is rejected, nothing is returned. When the launch throws,
      \<^verbatim>\<open>browser\<close> is undefined: no error screenshot is taken and nothing is closed.\<close>
  "placeOrder e od =
     (case callUnit e Launch \<lparr>history = [], res = initialResult\<rparr> of
        (Inl m, w) \<Rightarrow> (Inr ((res w)\<lparr>error := Some m\<rparr>), history w)
      | (Inr _, w) \<Rightarrow>
          (case ioFinally (ioCatch (ioSeq (orderSteps e od)) (errorState e))
                          (callUnit e Close) w of
             (Inl m, w') \<Rightarrow> (Inl m, history w')
           | (Inr _, w') \<Rightarrow> (Inr (res w'), history w')))"


section \<open>Notions used in the statements and proofs\<close>

text \<open>
  The definitions of this section are not part of the program. They name what the
  statements below speak about (the canonical vocabulary, words of a text, the texts typed
  into the page), what the proofs keep track of, and the browsers on which the theorems are
  tried.
\<close>

text \<open>The names the chain in \<open>normalizeName\<close> can produce.\<close>

definition canonicalNames :: "string list" where
  "canonicalNames = [''Bruschetta'', ''1lb Wings'', ''2lb Wings'', ''Quesadilla'', ''Angus Burger'',
     ''Caesar Salad'', ''Garlic Bread W/cheese'']"

text \<open>\<^verbatim>\<open>segments.join(sep)\<close>, to state what \<open>splitChar\<close> computes.\<close>

fun joinWith :: "char \<Rightarrow> string list \<Rightarrow> string" where
  "joinWith sep [] = []"
| "joinWith sep [x] = x"
| "joinWith sep (x # y # rest) = x @ sep # joinWith sep (y # rest)"

text \<open>
  A segment starts with an integer token followed by whitespace: a non-empty run of digits,
  then a whitespace character.
\<close>

definition leadingInteger :: "string \<Rightarrow> bool" where
  "leadingInteger s \<longleftrightarrow>
     takeWhile isDigit s \<noteq> [] \<and> (case dropWhile isDigit s of [] \<Rightarrow> False | c # _ \<Rightarrow> isSpace c)"

text \<open>
  The words of a text are its maximal runs of word characters. A word is capitalized when it
  is one letter A-Z followed by one or more letters a-z.
\<close>

definition isUpperAZ :: "char \<Rightarrow> bool" where
  "isUpperAZ c \<longleftrightarrow> CHR ''A'' \<le> c \<and> c \<le> CHR ''Z''"

definition isLowerAZ :: "char \<Rightarrow> bool" where
  "isLowerAZ c \<longleftrightarrow> CHR ''a'' \<le> c \<and> c \<le> CHR ''z''"

function wordsOf :: "string \<Rightarrow> string list" where
  "wordsOf [] = []"
| "wordsOf (c # cs) =
     (if isWordChar c then (c # takeWhile isWordChar cs) # wordsOf (dropWhile isWordChar cs)
      else wordsOf cs)"
  by pat_completeness auto

termination
  by (relation "measure length") (auto simp: less_Suc_eq_le length_dropWhile_le)

definition isCapitalized :: "string \<Rightarrow> bool" where
  "isCapitalized w \<longleftrightarrow>
     (case w of [] \<Rightarrow> False | c # rest \<Rightarrow> isUpperAZ c \<and> rest \<noteq> [] \<and> list_all isLowerAZ rest)"

text \<open>The last of the order-number patterns, \<^verbatim>\<open>/\b([A-Z][a-z]+)\b/\<close>, by name.\<close>

definition capWordPattern :: re where
  "capWordPattern = Cat WordB (Cat (Grp 1 (Cat (Cls [CRange CHR ''A'' CHR ''Z''])
     (Plus (Cls [CRange CHR ''a'' CHR ''z''])))) WordB)"

text \<open>
  Whether a text starts with a word character. The text before a position is kept nearest
  character first, so on it this says that the character before the position is one.
\<close>

fun prevWord :: "string \<Rightarrow> bool" where
  "prevWord [] = False"
| "prevWord (c # _) = isWordChar c"

text \<open>
  A step keeps a projection of the result when running it never changes that projection.
  \<open>core\<close> is the result without its screenshots, \<open>verdict\<close> its success flag and its error.
\<close>

definition keeps :: "(orderResult \<Rightarrow> 'a) \<Rightarrow> 'b io \<Rightarrow> bool" where
  "keeps proj m \<longleftrightarrow> (\<forall>w. proj (res (snd (m w))) = proj (res w))"

definition core :: "orderResult \<Rightarrow> orderResult" where
  "core r = r\<lparr>screenshots := []\<rparr>"

definition verdict :: "orderResult \<Rightarrow> bool \<times> string option" where
  "verdict r = (success r, error r)"

named_theorems keeps_intros

text \<open>The result after the confirmation page has been read in a world.\<close>

definition detailsFrom :: "env \<Rightarrow> world \<Rightarrow> orderResult" where
  "detailsFrom e w =
     (case textResp e (history w @ [Evaluate BodyText]) of
        Inl _ \<Rightarrow> res w
      | Inr pageText \<Rightarrow>
          setTotalAmount pageText (setPickupTime pageText (setConfirmationNumber pageText (res w))))"

text \<open>
  The texts typed into the page in a list of calls, in order; the first token of a name
  delimited by whitespace; and a step whose typed texts are a prefix of a given list, the
  whole list when it succeeds.
\<close>

definition typedTexts :: "action list \<Rightarrow> string list" where
  "typedTexts h = concat (map (\<lambda>a. case a of TypeInto _ t \<Rightarrow> [t] | _ \<Rightarrow> []) h)"

definition firstWhitespaceToken :: "string \<Rightarrow> string" where
  "firstWhitespaceToken s = takeWhile (\<lambda>c. \<not> isSpace c) (dropWhile isSpace s)"

definition types :: "unit io \<Rightarrow> string list \<Rightarrow> bool" where
  "types m ts \<longleftrightarrow>
     (\<forall>w x w'. m w = (x, w') \<longrightarrow>
        (\<exists>new. history w' = history w @ new \<and> prefix (typedTexts new) ts
           \<and> (x = Inr () \<longrightarrow> typedTexts new = ts)))"

text \<open>
  Browsers to try the theorems on: one where every call succeeds and every text read returns
  the same text, one where the page is lost just when its text is read, and one
  where the menu has no quesadilla.
\<close>

definition freshWorld :: world where
  "freshWorld = \<lparr>history = [], res = initialResult\<rparr>"

definition steadyEnv :: "string \<Rightarrow> env" where
  "steadyEnv pageText = \<lparr>unitResp = (\<lambda>_. None), textResp = (\<lambda>_. Inr pageText),
     boolResp = (\<lambda>_. Inr False), handleResp = (\<lambda>_. Inr (Some 0)), handlesResp = (\<lambda>_. Inr []),
     clock = (\<lambda>_. [])\<rparr>"

definition lostPageEnv :: env where
  "lostPageEnv = (steadyEnv ''img'')
     \<lparr>textResp := (\<lambda>h. if last h = Evaluate BodyText
                        then Inl ''Execution context was destroyed'' else Inr ''img'')\<rparr>"

definition noQuesadillaEnv :: env where
  "noQuesadillaEnv = (steadyEnv [])
     \<lparr>unitResp := (\<lambda>h. if last h = Evaluate (ClickItemPartial ''Quesadilla'')
                       then Some ''Item not found'' else None),
      handleResp := (\<lambda>h. if last h = EvaluateHandle (FindItemExact ''Quesadilla'')
                         then Inr None else Inr (Some 0))\<rparr>"

definition order1 :: orderData where
  "order1 = \<lparr>order_items = ''wings'', customer_name = ''John Smith'',
     customer_phone = ''416-555-1234'', pickup_time = ''ASAP'', special_instructions = None\<rparr>"


section \<open>Properties of the item parser\<close>

lemma normalizeName_range: "normalizeName nm \<in> set canonicalNames \<or> normalizeName nm = nm"
  by (simp add: normalizeName_def canonicalNames_def Let_def)

lemma canon_fixed: "n \<in> set canonicalNames \<Longrightarrow> normalizeName n = n"
  by (auto simp: canonicalNames_def; code_simp)

lemma idem: "normalizeName (normalizeName nm) = normalizeName nm"
  using normalizeName_range [of nm] canon_fixed by auto

lemma splitChar_nonempty: "splitChar sep s \<noteq> []"
  by (induction s) (auto simp: Let_def)

lemma length_splitChar: "length (splitChar sep s) = Suc (count_list s sep)"
  by (induction s) (auto simp: Let_def splitChar_nonempty)

lemma hd_splitChar: "hd (splitChar sep s) = takeWhile (\<lambda>c. c \<noteq> sep) s"
  by (induction s) (auto simp: Let_def)

lemma splitChar_no_sep: "seg \<in> set (splitChar sep s) \<Longrightarrow> sep \<notin> set seg"
proof (induction s arbitrary: seg)
  case Nil
  then show ?case by simp
next
  case (Cons c cs)
  have ne: "splitChar sep cs \<noteq> []" by (rule splitChar_nonempty)
  show ?case
  proof (cases "c = sep")
    case True
    with Cons show ?thesis by (auto simp: Let_def)
  next
    case False
    from Cons.prems False have "seg = c # hd (splitChar sep cs) \<or> seg \<in> set (tl (splitChar sep cs))"
      by (auto simp: Let_def)
    then show ?thesis
    proof
      assume "seg = c # hd (splitChar sep cs)"
      moreover have "sep \<notin> set (hd (splitChar sep cs))"
        using Cons.IH [of "hd (splitChar sep cs)"] ne by simp
      ultimately show ?thesis using False by auto
    next
      assume "seg \<in> set (tl (splitChar sep cs))"
      then have "seg \<in> set (splitChar sep cs)" using ne by (meson list.set_sel(2))
      then show ?thesis by (rule Cons.IH)
    qed
  qed
qed

lemma joinWith_Cons: "ys \<noteq> [] \<Longrightarrow> joinWith sep (x # ys) = x @ sep # joinWith sep ys"
  by (cases ys) auto

lemma joinWith_hd: "ys \<noteq> [] \<Longrightarrow> joinWith sep ((c # hd ys) # tl ys) = c # joinWith sep ys"
  by (cases ys; cases "tl ys") auto

lemma joinWith_splitChar: "joinWith sep (splitChar sep s) = s"
  by (induction s) (auto simp: Let_def splitChar_nonempty joinWith_Cons joinWith_hd)

lemma raw_parseItem: "raw (parseItem x) = x"
  by (simp add: parseItem_def split: prod.splits)

text \<open>
  Claim C1. For every input string, \<open>parseOrderItems\<close> returns one item per segment of
  the comma-split, in the order of the segments: the raw texts of the items are the trimmed
  segments, there are as many items as segments (one more than there are commas), and item
  \<open>i\<close> is the parse of segment \<open>i\<close>.
\<close>

theorem parseOrderItems_one_item_per_segment: "map raw (parseOrderItems s) = map trim (splitChar CHR '','' s)
   \<and> length (parseOrderItems s) = Suc (count_list s CHR '','')
   \<and> (\<forall>i < length (splitChar CHR '','' s). parseOrderItems s ! i = parseItem (trim (splitChar CHR '','' s ! i)))"
  by (simp add: parseOrderItems_def raw_parseItem length_splitChar comp_def)

lemma name_parseItem: "name (parseItem x) = normalizeName (candidateName (snd (stripQuantity x)))"
  by (simp add: parseItem_def split: prod.splits)

text \<open>
  Claim C10, amended. For every segment whose name, in lower case, contains
  \<^verbatim>\<open>wing\<close> and contains none of \<^verbatim>\<open>bruschetta\<close>, \<^verbatim>\<open>1lb\<close> and \<^verbatim>\<open>one lb\<close>, the item is
  named 2lb Wings.
\<close>

theorem wings_default_2lb:
  assumes "it \<in> set (parseOrderItems s)"
    and "nameLower = toLowerCase (candidateName (snd (stripQuantity (raw it))))"
    and "includesStr nameLower ''wing''"
    and "\<not> includesStr nameLower ''bruschetta''"
    and "\<not> includesStr nameLower ''1lb''" and "\<not> includesStr nameLower ''one lb''"
  shows "name it = ''2lb Wings''"
proof -
  from assms(1) obtain seg where it: "it = parseItem (trim seg)"
    by (auto simp: parseOrderItems_def)
  then have "name it = normalizeName (candidateName (snd (stripQuantity (raw it))))"
    by (simp add: name_parseItem raw_parseItem)
  with assms(2-) show ?thesis by (simp add: normalizeName_def Let_def)
qed

text \<open>
  Claim C6. The input \<^verbatim>\<open>2 burgers with no onion and extra sauce\<close> yields exactly one
  item, named Angus Burger, of quantity 2, with the modifications \<^verbatim>\<open>no onion\<close> and
  \<^verbatim>\<open>extra sauce\<close>.
\<close>

theorem scenario_two_burgers:
  "parseOrderItems ''2 burgers with no onion and extra sauce'' =
     [\<lparr>raw = ''2 burgers with no onion and extra sauce'', name = ''Angus Burger'', quantity = 2,
       modifications = [''no onion'', ''extra sauce'']\<rparr>]"
  by code_simp

text \<open>
  Claim C8. Canonicalization is idempotent: every name of the canonical vocabulary is mapped
  to itself, and mapping any name twice gives the same as mapping it once.
\<close>

theorem canonical_names_fixed:
  "(\<forall>n \<in> set canonicalNames. normalizeName n = n)
   \<and> normalizeName (normalizeName nm) = normalizeName nm"
  using canon_fixed idem by blast


subsection \<open>The quantity pattern\<close>

lemma digitVal_zero: "isDigit c \<Longrightarrow> digitVal c = 0 \<longleftrightarrow> c = CHR ''0''"
proof
  assume d: "isDigit c" and z: "digitVal c = 0"
  from d have "(48::nat) \<le> of_char c" by (simp add: isDigit_def less_eq_char_def)
  with z have "of_char c = (48::nat)" by (simp add: digitVal_def)
  then have "of_char c = (of_char CHR ''0'' :: nat)" by simp
  then show "c = CHR ''0''" by (simp only: of_char_eq_iff)
next
  assume "c = CHR ''0''"
  then show "digitVal c = 0" by (simp add: digitVal_def)
qed

lemma foldl_digits_zero:
  "foldl (\<lambda>n c. 10 * n + digitVal c) a ds = 0 \<longleftrightarrow> a = 0 \<and> (\<forall>c\<in>set ds. digitVal c = 0)"
  by (induction ds arbitrary: a) auto

lemma parseInt_zero:
  "\<forall>c\<in>set ds. isDigit c \<Longrightarrow> parseInt ds = 0 \<longleftrightarrow> (\<forall>c\<in>set ds. c = CHR ''0'')"
  by (auto simp: parseInt_def foldl_digits_zero digitVal_zero)

declare ms.simps [simp del]

lemma set_step1 [simp]:
  "set (step1 p (b, s, g)) = {(c # b, cs, g) | c cs. s = c # cs \<and> p c}"
  by (cases s) auto

lemma ms_Star_atom:
  assumes A: "\<And>x. ms f A x = step1 p x"
  shows "ms f (Star A) (b, s, g) =
    map (\<lambda>j. (rev (take j s) @ b, drop j s, g)) (rev [0..<Suc (length (takeWhile p s))])"
proof (induction s arbitrary: b)
  case Nil
  show ?case by (simp add: ms.simps(7) [of f A] A)
next
  case (Cons c cs)
  show ?case
  proof (cases "p c")
    case False
    then show ?thesis by (simp add: ms.simps(7) [of f A] A)
  next
    case True
    have "ms f (Star A) (b, c # cs, g) = ms f (Star A) (c # b, cs, g) @ [(b, c # cs, g)]"
      using True by (simp add: ms.simps(7) [of f A "(b, c # cs, g)"] A)
    also have "\<dots> = map (\<lambda>j. (rev (take j cs) @ c # b, drop j cs, g))
        (rev [0..<Suc (length (takeWhile p cs))]) @ [(b, c # cs, g)]"
      by (simp only: Cons.IH)
    also have "\<dots> = map (\<lambda>j. (rev (take j (c # cs)) @ b, drop j (c # cs), g))
        (rev [0..<Suc (length (takeWhile p (c # cs)))])"
    proof -
      have "[0..<Suc (Suc n)] = 0 # map Suc [0..<Suc n]" for n
        by (metis map_Suc_upt upt_conv_Cons zero_less_Suc)
      then show ?thesis using True by (simp add: rev_map comp_def del: upt_Suc)
    qed
    finally show ?thesis .
  qed
qed

lemma upt_1_Suc_Suc: "[Suc 0..<Suc (Suc n)] = map Suc [0..<Suc n]"
  by (simp only: map_Suc_upt)

lemma ms_Plus_atom:
  assumes A: "\<And>x. ms f A x = step1 p x"
  shows "ms f (Plus A) (b, s, g) =
    map (\<lambda>j. (rev (take j s) @ b, drop j s, g)) (rev [1..<Suc (length (takeWhile p s))])"
proof (cases s)
  case Nil
  then show ?thesis by (simp add: Plus_def ms.simps(5) A)
next
  case (Cons c cs)
  show ?thesis
  proof (cases "p c")
    case False
    with Cons show ?thesis by (simp add: Plus_def ms.simps(5) A)
  next
    case True
    have "ms f (Plus A) (b, s, g) = ms f (Star A) (c # b, cs, g)"
      using True Cons by (simp add: Plus_def ms.simps(5) A)
    also have "\<dots> = map (\<lambda>j. (rev (take j cs) @ c # b, drop j cs, g))
        (rev [0..<Suc (length (takeWhile p cs))])"
      by (rule ms_Star_atom [OF A])
    also have "\<dots> = map (\<lambda>j. (rev (take j s) @ b, drop j s, g))
        (rev [1..<Suc (length (takeWhile p s))])"
      using True Cons by (simp add: upt_1_Suc_Suc rev_map comp_def del: upt_Suc)
    finally show ?thesis .
  qed
qed

lemma set_ms_Plus_atom:
  assumes A: "\<And>x. ms f A x = step1 p x"
  shows "set (ms f (Plus A) (b, s, g)) =
    {(rev (take j s) @ b, drop j s, g) | j. 1 \<le> j \<and> j \<le> length (takeWhile p s)}"
  by (auto simp: ms_Plus_atom [OF A] simp del: upt_Suc)

lemma set_ms_Cat: "set (ms f (Cat r1 r2) x) = (\<Union>y\<in>set (ms f r1 x). set (ms f r2 y))"
  by (simp add: ms.simps)

lemma set_ms_Grp: "set (ms f (Grp n r) x) = capture n x ` set (ms f r x)"
  by (simp add: ms.simps)

lemma ms_Bol_noFlags: "ms noFlags (Cat Bol r) (b, s, g) = (if b = [] then ms noFlags r (b, s, g) else [])"
  by (cases b) (simp_all add: ms.simps noFlags_def)

lemma searchFrom_Some:
  "searchFrom f r b s = Some y \<Longrightarrow>
     \<exists>pre suf. s = pre @ suf \<and> ms f r (rev pre @ b, suf, []) \<noteq> [] \<and> y = hd (ms f r (rev pre @ b, suf, []))"
proof (induction s arbitrary: b)
  case Nil
  then show ?case by (auto split: list.splits)
next
  case (Cons c cs)
  show ?case
  proof (cases "ms f r (b, c # cs, [])")
    case Nil
    with Cons.prems have "searchFrom f r (c # b) cs = Some y" by simp
    from Cons.IH [OF this] obtain pre suf where
      "cs = pre @ suf" "ms f r (rev pre @ c # b, suf, []) \<noteq> []" "y = hd (ms f r (rev pre @ c # b, suf, []))"
      by blast
    then have "c # cs = (c # pre) @ suf \<and> ms f r (rev (c # pre) @ b, suf, []) \<noteq> []
        \<and> y = hd (ms f r (rev (c # pre) @ b, suf, []))" by simp
    then show ?thesis by blast
  next
    case (Cons y' ys)
    with Cons.prems have "y = y'" by simp
    with Cons have "c # cs = [] @ (c # cs) \<and> ms f r (rev [] @ b, c # cs, []) \<noteq> []
        \<and> y = hd (ms f r (rev [] @ b, c # cs, []))" by simp
    then show ?thesis by blast
  qed
qed

lemma searchFrom_None:
  "searchFrom f r b s = None \<longleftrightarrow> (\<forall>pre suf. s = pre @ suf \<longrightarrow> ms f r (rev pre @ b, suf, []) = [])"
proof (induction s arbitrary: b)
  case Nil
  then show ?case by (auto split: list.splits)
next
  case (Cons c cs)
  show ?case
  proof (cases "ms f r (b, c # cs, [])")
    case Nil
    have "(\<forall>pre suf. c # cs = pre @ suf \<longrightarrow> ms f r (rev pre @ b, suf, []) = [])
       \<longleftrightarrow> (\<forall>pre suf. cs = pre @ suf \<longrightarrow> ms f r (rev pre @ c # b, suf, []) = [])"
      (is "?L \<longleftrightarrow> ?R")
    proof
      assume L: ?L
      show ?R
      proof (intro allI impI)
        fix pre suf assume "cs = pre @ suf"
        then have "c # cs = (c # pre) @ suf" by simp
        from L [rule_format, OF this] show "ms f r (rev pre @ c # b, suf, []) = []" by simp
      qed
    next
      assume R: ?R
      show ?L
      proof (intro allI impI)
        fix pre suf assume eq: "c # cs = pre @ suf"
        show "ms f r (rev pre @ b, suf, []) = []"
        proof (cases pre)
          case Nil
          with eq Cons.prems \<open>ms f r (b, c # cs, []) = []\<close> show ?thesis by simp
        next
          case (Cons p ps)
          with eq have "p = c" "cs = ps @ suf" by simp_all
          from R [rule_format, OF this(2)] Cons \<open>p = c\<close> show ?thesis by simp
        qed
      qed
    qed
    with Nil Cons.IH [of "c # b"] show ?thesis by simp
  next
    case (Cons y' ys)
    then have "\<not> (\<forall>pre suf. c # cs = pre @ suf \<longrightarrow> ms f r (rev pre @ b, suf, []) = [])"
      by (metis append_Nil list.distinct(1) rev.simps(1))
    with Cons show ?thesis by simp
  qed
qed

lemma inClass_digit: "inClass noFlags [CDigit] = isDigit"
  by (rule ext) (simp add: inClass_def noFlags_def)

lemma inClass_space: "inClass noFlags [CSpace] = isSpace"
  by (rule ext) (simp add: inClass_def noFlags_def)

lemma qtyPattern_unfold:
  "qtyPattern = Cat Bol (Cat (Grp 1 (Plus (Cls [CDigit]))) (Cat (Plus (Cls [CSpace])) (Grp 2 (Plus AnyCh))))"
  by (simp add: qtyPattern_def)

lemma set_ms_Plus_digit:
  "set (ms noFlags (Plus (Cls [CDigit])) (b, s, g)) =
    {(rev (take j s) @ b, drop j s, g) | j. 1 \<le> j \<and> j \<le> length (takeWhile isDigit s)}"
  by (rule set_ms_Plus_atom) (simp add: ms.simps inClass_digit)

lemma set_ms_Plus_space:
  "set (ms noFlags (Plus (Cls [CSpace])) (b, s, g)) =
    {(rev (take j s) @ b, drop j s, g) | j. 1 \<le> j \<and> j \<le> length (takeWhile isSpace s)}"
  by (rule set_ms_Plus_atom) (simp add: ms.simps inClass_space)

lemma set_ms_Plus_any:
  "set (ms f (Plus AnyCh) (b, s, g)) =
    {(rev (take j s) @ b, drop j s, g) | j. 1 \<le> j \<and> j \<le> length (takeWhile (\<lambda>c. \<not> isLineTerminator c) s)}"
  by (rule set_ms_Plus_atom) (simp add: ms.simps)

lemma capture_take:
  "j \<le> length s \<Longrightarrow> capture n (b, s, g) (b', drop j s, g') = (b', drop j s, (n, take j s) # g')"
  by simp

lemma qty_members:
  "y \<in> set (ms noFlags qtyPattern ([], s, [])) \<longleftrightarrow>
     (\<exists>j i l. 1 \<le> j \<and> j \<le> length (takeWhile isDigit s)
        \<and> 1 \<le> i \<and> i \<le> length (takeWhile isSpace (drop j s))
        \<and> 1 \<le> l \<and> l \<le> length (takeWhile (\<lambda>c. \<not> isLineTerminator c) (drop i (drop j s)))
        \<and> y = (rev (take l (drop i (drop j s))) @ rev (take i (drop j s)) @ rev (take j s),
               drop l (drop i (drop j s)),
               [(2, take l (drop i (drop j s))), (1, take j s)]))"
  (is "?L \<longleftrightarrow> ?R")
proof -
  have le: "length (takeWhile p xs) \<le> length xs" for p and xs :: string
    by (rule length_takeWhile_le)
  have G1: "set (ms noFlags (Grp 1 (Plus (Cls [CDigit]))) ([], s, [])) =
      {(rev (take j s), drop j s, [(1, take j s)]) | j. 1 \<le> j \<and> j \<le> length (takeWhile isDigit s)}"
    using le [of isDigit s] by (auto simp: set_ms_Grp set_ms_Plus_digit image_iff)
  have G2: "set (ms noFlags (Grp 2 (Plus AnyCh)) (b, t, g)) =
      {(rev (take l t) @ b, drop l t, (2, take l t) # g) | l.
         1 \<le> l \<and> l \<le> length (takeWhile (\<lambda>c. \<not> isLineTerminator c) t)}" for b t g
    using le [of "\<lambda>c. \<not> isLineTerminator c" t] by (auto simp: set_ms_Grp set_ms_Plus_any image_iff)
  have "?L \<longleftrightarrow> (\<exists>y1 \<in> set (ms noFlags (Grp 1 (Plus (Cls [CDigit]))) ([], s, [])).
           \<exists>y2 \<in> set (ms noFlags (Plus (Cls [CSpace])) y1).
             y \<in> set (ms noFlags (Grp 2 (Plus AnyCh)) y2))"
    by (simp add: qtyPattern_unfold ms_Bol_noFlags set_ms_Cat)
  also have "\<dots> \<longleftrightarrow> (\<exists>j. 1 \<le> j \<and> j \<le> length (takeWhile isDigit s) \<and>
           (\<exists>y2 \<in> set (ms noFlags (Plus (Cls [CSpace])) (rev (take j s), drop j s, [(1, take j s)])).
             y \<in> set (ms noFlags (Grp 2 (Plus AnyCh)) y2)))"
    unfolding G1 by blast
  also have "\<dots> \<longleftrightarrow> (\<exists>j. 1 \<le> j \<and> j \<le> length (takeWhile isDigit s) \<and>
           (\<exists>i. 1 \<le> i \<and> i \<le> length (takeWhile isSpace (drop j s)) \<and>
             y \<in> set (ms noFlags (Grp 2 (Plus AnyCh))
                (rev (take i (drop j s)) @ rev (take j s), drop i (drop j s), [(1, take j s)]))))"
    unfolding set_ms_Plus_space by blast
  also have "\<dots> \<longleftrightarrow> ?R"
    unfolding G2 by blast
  finally show ?thesis .
qed

lemma digit_not_space: "isDigit c \<Longrightarrow> \<not> isSpace c"
  by (auto simp: isDigit_def isSpace_def)

lemma lineTerminator_space: "isLineTerminator c \<Longrightarrow> isSpace c"
  by (auto simp: isLineTerminator_def isSpace_def)

lemma takeWhile_nonempty_hd: "1 \<le> i \<Longrightarrow> i \<le> length (takeWhile p xs) \<Longrightarrow> \<exists>c cs. xs = c # cs \<and> p c"
  by (cases xs) (auto split: if_splits)

lemma drop_in_takeWhile:
  assumes "j < length (takeWhile p xs)"
  shows "\<exists>c cs. drop j xs = c # cs \<and> p c"
proof -
  have "j < length xs" using assms length_takeWhile_le [of p xs] by simp
  then have "drop j xs = xs ! j # drop (Suc j) xs" by (simp add: Cons_nth_drop_Suc)
  moreover have "p (xs ! j)" using assms by (metis nth_mem set_takeWhileD takeWhile_nth)
  ultimately show ?thesis by blast
qed

lemma qty_match_groups:
  assumes "y \<in> set (ms noFlags qtyPattern ([], s, []))"
  shows "grp 1 y = Some (takeWhile isDigit s) \<and> (\<exists>rest. grp 2 y = Some rest) \<and> leadingInteger s"
proof -
  from assms obtain j i l where
      j: "1 \<le> j" "j \<le> length (takeWhile isDigit s)"
    and i: "1 \<le> i" "i \<le> length (takeWhile isSpace (drop j s))"
    and y: "y = (rev (take l (drop i (drop j s))) @ rev (take i (drop j s)) @ rev (take j s),
               drop l (drop i (drop j s)), [(2, take l (drop i (drop j s))), (1, take j s)])"
    unfolding qty_members by blast
  from takeWhile_nonempty_hd [OF i] obtain c cs where c: "drop j s = c # cs" "isSpace c" by blast
  have "\<not> j < length (takeWhile isDigit s)"
  proof
    assume "j < length (takeWhile isDigit s)"
    from drop_in_takeWhile [OF this] c show False by (auto dest: digit_not_space)
  qed
  with j have jn: "j = length (takeWhile isDigit s)" by simp
  have t: "take j s = takeWhile isDigit s" unfolding jn by (rule takeWhile_eq_take [symmetric])
  have d: "drop j s = dropWhile isDigit s" unfolding jn by (rule dropWhile_eq_drop [symmetric])
  have "takeWhile isDigit s \<noteq> []" using j jn by auto
  with c d have li: "leadingInteger s" by (simp add: leadingInteger_def)
  have "grp 1 y = Some (take j s)" and "grp 2 y = Some (take l (drop i (drop j s)))"
    unfolding y by simp_all
  with li t show ?thesis by simp
qed

lemma qty_match_exists:
  assumes li: "leadingInteger s" and ne: "dropWhile isSpace (dropWhile isDigit s) \<noteq> []"
  shows "ms noFlags qtyPattern ([], s, []) \<noteq> []"
proof -
  let ?j = "length (takeWhile isDigit s)"
  let ?r = "drop ?j s"
  let ?i = "length (takeWhile isSpace ?r)"
  let ?t = "drop ?i ?r"
  have r: "?r = dropWhile isDigit s" by (simp add: dropWhile_eq_drop)
  have t: "?t = dropWhile isSpace (dropWhile isDigit s)" by (simp add: dropWhile_eq_drop)
  from li have j: "1 \<le> ?j" by (cases "takeWhile isDigit s") (auto simp: leadingInteger_def)
  from li r have i: "1 \<le> ?i" by (auto simp: leadingInteger_def split: list.splits)
  from ne t obtain c cs where c: "?t = c # cs" by (cases ?t) auto
  have "\<not> isSpace c" using c t hd_dropWhile [OF ne] by (metis list.sel(1))
  then have "\<not> isLineTerminator c" by (auto dest: lineTerminator_space)
  with c have l: "1 \<le> length (takeWhile (\<lambda>c. \<not> isLineTerminator c) ?t)" by simp
  have "(rev (take 1 ?t) @ rev (take ?i ?r) @ rev (take ?j s), drop 1 ?t,
         [(2, take 1 ?t), (1, take ?j s)]) \<in> set (ms noFlags qtyPattern ([], s, []))"
    unfolding qty_members using j i l by blast
  then show ?thesis by auto
qed

lemma qty_search_later: "b \<noteq> [] \<Longrightarrow> searchFrom noFlags qtyPattern b s = None"
  by (simp add: searchFrom_None qtyPattern_unfold ms_Bol_noFlags)

lemma regexMatch_qty:
  "regexMatch noFlags qtyPattern s =
     (case ms noFlags qtyPattern ([], s, []) of [] \<Rightarrow> None | y # _ \<Rightarrow> Some y)"
  by (cases s) (simp_all add: regexMatch_def qty_search_later split: list.splits)

lemma trim_last: "trim s \<noteq> [] \<Longrightarrow> \<not> isSpace (last (trim s))"
  by (simp add: trim_def last_rev hd_dropWhile)

lemma stripQuantity_trimmed:
  assumes tr: "s = [] \<or> \<not> isSpace (last s)"
  shows "fst (stripQuantity s) = (if leadingInteger s then parseInt (takeWhile isDigit s) else 1)"
proof (cases "ms noFlags qtyPattern ([], s, [])")
  case Nil
  have "\<not> leadingInteger s"
  proof
    assume li: "leadingInteger s"
    let ?r = "dropWhile isDigit s"
    from li obtain c cs where r: "?r = c # cs" "isSpace c"
      by (auto simp: leadingInteger_def split: list.splits)
    have s: "s = takeWhile isDigit s @ ?r" by simp
    have "dropWhile isSpace ?r \<noteq> []"
    proof
      assume "dropWhile isSpace ?r = []"
      then have "\<forall>x\<in>set ?r. isSpace x" by (simp add: dropWhile_eq_Nil_conv)
      moreover have "last ?r \<in> set ?r" using r by simp
      moreover have "last s = last ?r" using r s by (metis last_appendR list.distinct(1))
      moreover have "s \<noteq> []" using r by auto
      ultimately show False using tr by auto
    qed
    from qty_match_exists [OF li this] Nil show False by simp
  qed
  with Nil show ?thesis by (simp add: stripQuantity_def regexMatch_qty)
next
  case (Cons y ys)
  then have "y \<in> set (ms noFlags qtyPattern ([], s, []))" by simp
  from qty_match_groups [OF this] Cons show ?thesis
    by (auto simp: stripQuantity_def regexMatch_qty)
qed

lemma stripQuantity_groups_defined:
  "regexMatch noFlags qtyPattern s = Some m \<Longrightarrow> \<exists>q rest. grp 1 m = Some q \<and> grp 2 m = Some rest"
  using qty_match_groups [of m s] by (auto simp: regexMatch_qty split: list.splits)

lemma takeWhile_digits: "\<forall>c\<in>set (takeWhile isDigit s). isDigit c"
  by (auto dest: set_takeWhileD)

text \<open>
  Claim C5, amended. For every input string and every item the parser produces: if the
  segment's leading integer token, when it has one followed by whitespace, has a value below
  \<open>2^53\<close> (the range in which the number of the code is the exact value of the token),
  the quantity is the value of that token, and 1 when the segment has no such token; so it
  is 0 exactly when that token consists of zeros, and at least 1 in every other case. With
  no condition on the token, the modifications are a sequence, empty when the text after
  the quantity has no \<^verbatim>\<open>" with "\<close>.
\<close>

theorem quantity_of_leading_integer:
  assumes "it \<in> set (parseOrderItems s)"
  shows "((leadingInteger (raw it) \<longrightarrow> parseInt (takeWhile isDigit (raw it)) < 2 ^ 53) \<longrightarrow>
        quantity it = (if leadingInteger (raw it) then parseInt (takeWhile isDigit (raw it)) else 1)
        \<and> (quantity it = 0 \<longleftrightarrow>
             leadingInteger (raw it) \<and> (\<forall>c\<in>set (takeWhile isDigit (raw it)). c = CHR ''0'')))
    \<and> (indexOf (toLowerCase (snd (stripQuantity (raw it)))) '' with '' = - 1 \<longrightarrow> modifications it = [])"
proof -
  from assms obtain seg where it: "it = parseItem (trim seg)"
    by (auto simp: parseOrderItems_def)
  have raw: "raw it = trim seg" by (simp add: it raw_parseItem)
  have q: "quantity it = fst (stripQuantity (trim seg))"
    by (simp add: it parseItem_def split: prod.splits)
  have m: "modifications it = itemModifications (snd (stripQuantity (trim seg)))"
    by (simp add: it parseItem_def split: prod.splits)
  have tr: "trim seg = [] \<or> \<not> isSpace (last (trim seg))" using trim_last by blast
  have 1: "quantity it = (if leadingInteger (raw it) then parseInt (takeWhile isDigit (raw it)) else 1)"
    by (simp only: q raw stripQuantity_trimmed [OF tr])
  have 2: "quantity it = 0 \<longleftrightarrow> leadingInteger (raw it) \<and> (\<forall>c\<in>set (takeWhile isDigit (raw it)). c = CHR ''0'')"
    using parseInt_zero [OF takeWhile_digits, of "raw it"] by (simp add: 1)
  have 3: "indexOf (toLowerCase (snd (stripQuantity (raw it)))) '' with '' = - 1 \<longrightarrow> modifications it = []"
    by (simp add: m raw itemModifications_def)
  from 1 2 3 show ?thesis by blast
qed


section \<open>The catch-all order-number pattern\<close>

lemma inClass_upper: "inClass noFlags [CRange CHR ''A'' CHR ''Z''] = isUpperAZ"
  by (rule ext) (simp add: inClass_def noFlags_def isUpperAZ_def)

lemma inClass_lower: "inClass noFlags [CRange CHR ''a'' CHR ''z''] = isLowerAZ"
  by (rule ext) (simp add: inClass_def noFlags_def isLowerAZ_def)

lemma upper_word: "isUpperAZ c \<Longrightarrow> isWordChar c"
  by (simp add: isUpperAZ_def isWordChar_def)

lemma lower_word: "isLowerAZ c \<Longrightarrow> isWordChar c"
  by (simp add: isLowerAZ_def isWordChar_def)

lemma ms_Plus_lower:
  "ms noFlags (Plus (Cls [CRange CHR ''a'' CHR ''z''])) (b, s, g) =
    map (\<lambda>j. (rev (take j s) @ b, drop j s, g)) (rev [1..<Suc (length (takeWhile isLowerAZ s))])"
  by (rule ms_Plus_atom) (simp add: ms.simps inClass_lower)

lemma ms_Cat_WordB: "ms f (Cat r WordB) x = filter atWordB (ms f r x)"
proof -
  have "concat (map (\<lambda>y. if atWordB y then [y] else []) xs) = filter atWordB xs" for xs :: "mstate list"
    by (induction xs) auto
  moreover have "ms f WordB = (\<lambda>y. if atWordB y then [y] else [])"
    by (rule ext) (simp add: ms.simps)
  ultimately show ?thesis by (simp add: ms.simps(5))
qed

lemma atWordB_prevWord: "atWordB (b, s, g) \<longleftrightarrow> prevWord b \<noteq> prevWord s"
  by (cases b; cases s) auto

declare atWordB.simps [simp del]

lemma filter_rev_upt_last:
  assumes "\<And>j. Suc 0 \<le> j \<Longrightarrow> j < n \<Longrightarrow> \<not> P (h j)"
  shows "filter P (map h (rev [Suc 0..<Suc n])) = (if Suc 0 \<le> n \<and> P (h n) then [h n] else [])"
proof (cases n)
  case 0
  then show ?thesis by simp
next
  case (Suc m)
  have "filter P (map h (rev [Suc 0..<n])) = []"
    using assms by (auto simp: filter_empty_conv)
  then show ?thesis using Suc by simp
qed

lemma nextWord_drop:
  assumes "j < length (takeWhile isLowerAZ cs)"
  shows "prevWord (drop j cs)"
  using drop_in_takeWhile [OF assms] by (auto dest: lower_word)

lemma prev_after_take:
  assumes "Suc 0 \<le> j" "j \<le> length (takeWhile isLowerAZ cs)"
  shows "prevWord (rev (take j cs) @ b)"
proof -
  obtain k where k: "j = Suc k" using assms(1) by (cases j) auto
  then have "k < length (takeWhile isLowerAZ cs)" using assms(2) by simp
  then have lt: "k < length cs" and lw: "isLowerAZ (cs ! k)"
    using length_takeWhile_le [of isLowerAZ cs] apply simp
    by (metis \<open>k < length (takeWhile isLowerAZ cs)\<close> nth_mem set_takeWhileD takeWhile_nth)
  have "take j cs = take k cs @ [cs ! k]" using k lt by (simp add: take_Suc_conv_app_nth)
  then show ?thesis using lw by (simp add: lower_word)
qed

lemma capWord_at:
  "ms noFlags capWordPattern (b, s, []) =
     (case s of [] \<Rightarrow> []
      | c # cs \<Rightarrow>
          if isUpperAZ c \<and> \<not> prevWord b \<and> takeWhile isLowerAZ cs \<noteq> []
             \<and> \<not> prevWord (dropWhile isLowerAZ cs)
          then [(rev (takeWhile isLowerAZ cs) @ c # b, dropWhile isLowerAZ cs,
                 [(1, c # takeWhile isLowerAZ cs)])]
          else [])"
proof (cases s)
  case Nil
  then show ?thesis
    by (simp add: capWordPattern_def ms.simps(5) [of _ WordB] ms.simps(12) ms_Cat_WordB
        ms.simps(9) ms.simps(5) [of _ "Cls _"] ms.simps(4))
next
  case (Cons c cs)
  let ?n = "length (takeWhile isLowerAZ cs)"
  let ?h = "\<lambda>j. (rev (take j cs) @ c # b, drop j cs, [(Suc 0, c # take j cs)])"
  have wb: "atWordB (b, c # cs, []) \<longleftrightarrow> \<not> prevWord b" if "isUpperAZ c"
    using that by (simp add: atWordB_prevWord upper_word)
  have inner: "ms noFlags (Cat (Cls [CRange CHR ''A'' CHR ''Z'']) (Plus (Cls [CRange CHR ''a'' CHR ''z''])))
      (b, c # cs, []) =
      (if isUpperAZ c then map (\<lambda>j. (rev (take j cs) @ c # b, drop j cs, [])) (rev [Suc 0..<Suc ?n]) else [])"
    by (simp add: ms.simps(5) ms.simps(4) inClass_upper ms_Plus_lower del: upt_Suc)
  have cap: "map (capture (Suc 0) (b, c # cs, [])) (map (\<lambda>j. (rev (take j cs) @ c # b, drop j cs, [])) (rev [Suc 0..<Suc ?n]))
      = map ?h (rev [Suc 0..<Suc ?n])"
    using length_takeWhile_le [of isLowerAZ cs] by (auto simp: Suc_diff_le simp del: upt_Suc)
  have grp: "ms noFlags (Grp (Suc 0) (Cat (Cls [CRange CHR ''A'' CHR ''Z'']) (Plus (Cls [CRange CHR ''a'' CHR ''z'']))))
      (b, c # cs, []) = (if isUpperAZ c then map ?h (rev [Suc 0..<Suc ?n]) else [])"
    using cap by (simp add: ms.simps(9) inner del: upt_Suc)
  have flt: "filter atWordB (map ?h (rev [Suc 0..<Suc ?n])) =
      (if Suc 0 \<le> ?n \<and> atWordB (?h ?n) then [?h ?n] else [])"
  proof (rule filter_rev_upt_last)
    fix j assume j: "Suc 0 \<le> j" "j < ?n"
    from prev_after_take [of j cs "c # b"] j have p: "prevWord (rev (take j cs) @ c # b)" by simp
    from nextWord_drop [OF j(2)] have q: "prevWord (drop j cs)" .
    from p q show "\<not> atWordB (?h j)"
      by (simp add: atWordB_prevWord)
  qed
  have last: "atWordB (?h ?n) \<longleftrightarrow> \<not> prevWord (dropWhile isLowerAZ cs)" if "Suc 0 \<le> ?n"
  proof -
    from prev_after_take [of ?n cs "c # b"] that have p: "prevWord (rev (take ?n cs) @ c # b)" by simp
    have d: "drop ?n cs = dropWhile isLowerAZ cs" by (rule dropWhile_eq_drop [symmetric])
    from p show ?thesis unfolding d
      by (simp add: atWordB_prevWord)
  qed
  have t: "take ?n cs = takeWhile isLowerAZ cs" by (rule takeWhile_eq_take [symmetric])
  have d: "drop ?n cs = dropWhile isLowerAZ cs" by (rule dropWhile_eq_drop [symmetric])
  have n1: "Suc 0 \<le> ?n \<longleftrightarrow> takeWhile isLowerAZ cs \<noteq> []" by (cases "takeWhile isLowerAZ cs") auto
  have "ms noFlags capWordPattern (b, c # cs, []) =
      (if atWordB (b, c # cs, []) then
         filter atWordB (if isUpperAZ c then map ?h (rev [Suc 0..<Suc ?n]) else []) else [])"
    by (simp add: capWordPattern_def ms.simps(5) [of _ WordB] ms.simps(12) ms_Cat_WordB
        grp del: upt_Suc)
  also have "\<dots> = (if isUpperAZ c \<and> \<not> prevWord b \<and> takeWhile isLowerAZ cs \<noteq> []
             \<and> \<not> prevWord (dropWhile isLowerAZ cs)
          then [(rev (takeWhile isLowerAZ cs) @ c # b, dropWhile isLowerAZ cs,
                 [(1, c # takeWhile isLowerAZ cs)])]
          else [])"
    using wb last n1 by (auto simp: flt t d simp del: upt_Suc)
  finally show ?thesis using Cons by simp
qed

lemma takeWhile_weaken:
  assumes "\<And>x. P x \<Longrightarrow> Q x" and "\<not> prevW (dropWhile P xs)"
    and pw: "\<And>ys. prevW ys \<longleftrightarrow> (case ys of [] \<Rightarrow> False | y # _ \<Rightarrow> Q y)"
  shows "takeWhile Q xs = takeWhile P xs \<and> dropWhile Q xs = dropWhile P xs"
  using assms(2)
proof (induction xs)
  case Nil
  then show ?case by simp
next
  case (Cons x xs)
  show ?case
  proof (cases "P x")
    case True
    with Cons assms(1) show ?thesis by simp
  next
    case False
    with Cons.prems have "\<not> Q x" by (simp add: pw)
    with False show ?thesis by simp
  qed
qed

lemma prevWord_case: "prevWord ys \<longleftrightarrow> (case ys of [] \<Rightarrow> False | y # _ \<Rightarrow> isWordChar y)"
  by (cases ys) auto

lemma word_run_lower:
  assumes "\<not> prevWord (dropWhile isLowerAZ cs)"
  shows "takeWhile isWordChar cs = takeWhile isLowerAZ cs" "dropWhile isWordChar cs = dropWhile isLowerAZ cs"
  using takeWhile_weaken [of isLowerAZ isWordChar prevWord cs, OF lower_word assms prevWord_case]
  by simp_all

lemma lower_run_word:
  assumes "list_all isLowerAZ (takeWhile isWordChar cs)"
  shows "takeWhile isLowerAZ cs = takeWhile isWordChar cs"
  using assms by (induction cs) (auto dest: lower_word)

lemma not_prevWord_dropWhile: "\<not> prevWord (dropWhile isWordChar cs)"
proof (cases "dropWhile isWordChar cs")
  case Nil
  show ?thesis unfolding Nil by simp
next
  case (Cons y ys)
  then have "dropWhile isWordChar cs \<noteq> []" by simp
  from hd_dropWhile [OF this] show ?thesis unfolding Cons by simp
qed

lemma capWord_at_word_start:
  assumes "\<not> prevWord b" "isWordChar c"
  shows "ms noFlags capWordPattern (b, c # cs, []) =
     (if isCapitalized (c # takeWhile isWordChar cs)
      then [(rev (takeWhile isWordChar cs) @ c # b, dropWhile isWordChar cs,
             [(1, c # takeWhile isWordChar cs)])]
      else [])"
proof (cases "isUpperAZ c \<and> takeWhile isLowerAZ cs \<noteq> [] \<and> \<not> prevWord (dropWhile isLowerAZ cs)")
  case True
  then have np: "\<not> prevWord (dropWhile isLowerAZ cs)" by simp
  have "list_all isLowerAZ (takeWhile isLowerAZ cs)"
    by (simp add: list_all_iff) (metis set_takeWhileD)
  with True have "isCapitalized (c # takeWhile isWordChar cs)"
    by (simp add: isCapitalized_def word_run_lower [OF np])
  with True assms show ?thesis by (simp add: capWord_at word_run_lower [OF np])
next
  case False
  have "\<not> isCapitalized (c # takeWhile isWordChar cs)"
  proof
    assume cap: "isCapitalized (c # takeWhile isWordChar cs)"
    then have la: "list_all isLowerAZ (takeWhile isWordChar cs)" and u: "isUpperAZ c"
      and ne: "takeWhile isWordChar cs \<noteq> []"
      by (simp_all add: isCapitalized_def)
    have eq: "takeWhile isLowerAZ cs = takeWhile isWordChar cs" by (rule lower_run_word [OF la])
    have "length (takeWhile isLowerAZ cs) = length (takeWhile isWordChar cs)" by (simp only: eq)
    then have "dropWhile isLowerAZ cs = dropWhile isWordChar cs"
      by (simp add: dropWhile_eq_drop)
    with not_prevWord_dropWhile [of cs] have "\<not> prevWord (dropWhile isLowerAZ cs)" by simp
    with u ne eq False show False by simp
  qed
  with False assms show ?thesis by (auto simp: capWord_at)
qed

lemma capWord_mid_word: "prevWord b \<Longrightarrow> ms noFlags capWordPattern (b, s, []) = []"
  by (simp add: capWord_at split: list.splits)

lemma capWord_at_nonword: "\<not> isWordChar c \<Longrightarrow> ms noFlags capWordPattern (b, c # cs, []) = []"
  by (auto simp: capWord_at dest: upper_word)

lemma capWord_skip_word:
  "prevWord b \<Longrightarrow> searchFrom noFlags capWordPattern b s =
     searchFrom noFlags capWordPattern (rev (takeWhile isWordChar s) @ b) (dropWhile isWordChar s)"
proof (induction s arbitrary: b)
  case Nil
  then show ?case by simp
next
  case (Cons c cs)
  show ?case
  proof (cases "isWordChar c")
    case True
    have "searchFrom noFlags capWordPattern b (c # cs) = searchFrom noFlags capWordPattern (c # b) cs"
      using Cons.prems by (simp add: capWord_mid_word)
    also have "\<dots> = searchFrom noFlags capWordPattern (rev (takeWhile isWordChar cs) @ c # b)
        (dropWhile isWordChar cs)"
      using True by (intro Cons.IH) simp
    finally show ?thesis using True by simp
  next
    case False
    then show ?thesis by simp
  qed
qed

lemma capWord_search:
  "\<not> (prevWord b \<and> prevWord s) \<Longrightarrow>
     (case searchFrom noFlags capWordPattern b s of None \<Rightarrow> None | Some m \<Rightarrow> grp 1 m)
       = find isCapitalized (wordsOf s)"
proof (induction s arbitrary: b rule: wordsOf.induct)
  case 1
  then show ?case by (simp add: capWord_at)
next
  case (2 c cs)
  show ?case
  proof (cases "isWordChar c")
    case False
    have "searchFrom noFlags capWordPattern b (c # cs) = searchFrom noFlags capWordPattern (c # b) cs"
      using False by (simp add: capWord_at_nonword)
    moreover have "(case searchFrom noFlags capWordPattern (c # b) cs of None \<Rightarrow> None | Some m \<Rightarrow> grp 1 m)
        = find isCapitalized (wordsOf cs)"
      using False by (intro "2.IH"(2)) simp_all
    ultimately show ?thesis using False by simp
  next
    case True
    with "2.prems" have nb: "\<not> prevWord b" by simp
    show ?thesis
    proof (cases "isCapitalized (c # takeWhile isWordChar cs)")
      case cap: True
      then show ?thesis using True by (simp add: capWord_at_word_start [OF nb True])
    next
      case ncap: False
      have "searchFrom noFlags capWordPattern b (c # cs) = searchFrom noFlags capWordPattern (c # b) cs"
        using ncap by (simp add: capWord_at_word_start [OF nb True])
      also have "\<dots> = searchFrom noFlags capWordPattern (rev (takeWhile isWordChar cs) @ c # b)
          (dropWhile isWordChar cs)"
        using True by (intro capWord_skip_word) simp
      finally have "searchFrom noFlags capWordPattern b (c # cs) =
          searchFrom noFlags capWordPattern (rev (takeWhile isWordChar cs) @ c # b) (dropWhile isWordChar cs)" .
      moreover have "(case searchFrom noFlags capWordPattern (rev (takeWhile isWordChar cs) @ c # b)
            (dropWhile isWordChar cs) of None \<Rightarrow> None | Some m \<Rightarrow> grp 1 m)
          = find isCapitalized (wordsOf (dropWhile isWordChar cs))"
        using True not_prevWord_dropWhile [of cs] by (intro "2.IH"(1)) simp_all
      ultimately show ?thesis using True ncap by simp
    qed
  qed
qed

lemma capWord_match:
  "(case regexMatch noFlags capWordPattern t of None \<Rightarrow> None | Some m \<Rightarrow> grp 1 m)
     = find isCapitalized (wordsOf t)"
  unfolding regexMatch_def by (rule capWord_search) simp

lemma firstMatch_append:
  "firstMatch (ps @ qs) t = (case firstMatch ps t of None \<Rightarrow> firstMatch qs t | Some m \<Rightarrow> Some m)"
  by (induction ps) (auto split: option.splits)

lemma orderNumberPatterns_split:
  "orderNumberPatterns = take 3 orderNumberPatterns @ [(noFlags, capWordPattern)]"
  by (simp add: orderNumberPatterns_def capWordPattern_def)

text \<open>
  Claim C9. When the text of the confirmation page matches none of the first three
  order-number patterns and has a capitalized word, the extractor sets the confirmation
  number to the first capitalized word of the text, which is not the placeholder.
\<close>

theorem catch_all_takes_first_capitalized_word:
  assumes page: "textResp e (history w @ [Evaluate BodyText]) = Inr pageText"
    and none: "firstMatch (take 3 orderNumberPatterns) pageText = None"
    and word: "find isCapitalized (wordsOf pageText) = Some cw"
  shows "confirmationNumber (res (snd (extractConfirmationDetails e w))) = Some cw
     \<and> cw \<noteq> ''ORDER_PLACED_NO_NUMBER''"
proof -
  from word have cap: "isCapitalized cw" by (auto simp: find_Some_iff)
  then have ne: "cw \<noteq> []" by (auto simp: isCapitalized_def)
  have "firstMatch orderNumberPatterns pageText = regexMatch noFlags capWordPattern pageText"
    by (subst orderNumberPatterns_split) (simp add: firstMatch_append none split: option.splits)
  moreover from capWord_match [of pageText] word
  obtain m where "regexMatch noFlags capWordPattern pageText = Some m" "grp 1 m = Some cw"
    by (auto split: option.splits)
  ultimately have "confirmationNumber (setConfirmationNumber pageText r) = Some cw" for r
    using ne by (simp add: setConfirmationNumber_def falsy_def)
  then have "confirmationNumber (res (snd (extractConfirmationDetails e w))) = Some cw"
    using page by (simp add: extractConfirmationDetails_def ioCatch_def ioBind_def callText_def
        readDetails_def setTotalAmount_def setPickupTime_def Let_def split: option.splits)
  moreover have "cw \<noteq> ''ORDER_PLACED_NO_NUMBER''"
    using cap by (auto simp: isCapitalized_def isLowerAZ_def)
  ultimately show ?thesis by simp
qed


section \<open>Properties of the pipeline\<close>

lemma keepsD: "keeps proj m \<Longrightarrow> m w = (x, w') \<Longrightarrow> proj (res w') = proj (res w)"
  by (auto simp: keeps_def dest: spec [of _ w])

lemma keeps_return [keeps_intros]: "keeps p (ioReturn x)"
  by (simp add: keeps_def ioReturn_def)

lemma keeps_throw [keeps_intros]: "keeps p (ioThrow m)"
  by (simp add: keeps_def ioThrow_def)

lemma keeps_bind [keeps_intros]:
  assumes "keeps p m" "\<And>x. keeps p (k x)"
  shows "keeps p (ioBind m k)"
  unfolding keeps_def
proof
  fix w
  obtain x w' where mw: "m w = (x, w')" by (cases "m w")
  have 1: "p (res w') = p (res w)" using keepsD [OF assms(1) mw] .
  show "p (res (snd (ioBind m k w))) = p (res w)"
  proof (cases x)
    case (Inl e)
    with mw 1 show ?thesis by (simp add: ioBind_def)
  next
    case (Inr y)
    obtain z w'' where kw: "k y w' = (z, w'')" by (cases "k y w'")
    from keepsD [OF assms(2) kw] 1 mw Inr kw show ?thesis by (simp add: ioBind_def)
  qed
qed

lemma keeps_then [keeps_intros]: "keeps p m \<Longrightarrow> keeps p n \<Longrightarrow> keeps p (ioThen m n)"
  by (simp add: ioThen_def keeps_bind)

lemma keeps_catch [keeps_intros]:
  assumes "keeps p m" "\<And>x. keeps p (k x)"
  shows "keeps p (ioCatch m k)"
  unfolding keeps_def
proof
  fix w
  obtain x w' where mw: "m w = (x, w')" by (cases "m w")
  have 1: "p (res w') = p (res w)" using keepsD [OF assms(1) mw] .
  show "p (res (snd (ioCatch m k w))) = p (res w)"
  proof (cases x)
    case (Inr y)
    with mw 1 show ?thesis by (simp add: ioCatch_def)
  next
    case (Inl y)
    obtain z w'' where kw: "k y w' = (z, w'')" by (cases "k y w'")
    from keepsD [OF assms(2) kw] 1 mw Inl kw show ?thesis by (simp add: ioCatch_def)
  qed
qed

lemma keeps_seq [keeps_intros]: "(\<And>m. m \<in> set steps \<Longrightarrow> keeps p m) \<Longrightarrow> keeps p (ioSeq steps)"
  by (induction steps) (auto intro: keeps_intros)

lemma keeps_callUnit [keeps_intros]: "keeps p (callUnit e a)"
  by (simp add: keeps_def callUnit_def Let_def)

lemma keeps_callText [keeps_intros]: "keeps p (callText e a)"
  by (simp add: keeps_def callText_def Let_def)

lemma keeps_callBool [keeps_intros]: "keeps p (callBool e a)"
  by (simp add: keeps_def callBool_def Let_def)

lemma keeps_callHandle [keeps_intros]: "keeps p (callHandle e a)"
  by (simp add: keeps_def callHandle_def Let_def)

lemma keeps_callHandles [keeps_intros]: "keeps p (callHandles e a)"
  by (simp add: keeps_def callHandles_def Let_def)

lemma keeps_clickHandle [keeps_intros]: "keeps p (clickHandle e h)"
  by (cases h) (auto simp: clickHandle_def intro: keeps_intros)

lemma keeps_if [keeps_intros]: "keeps p a \<Longrightarrow> keeps p b \<Longrightarrow> keeps p (if c then a else b)"
  by simp

lemma keeps_case_option [keeps_intros]:
  "keeps p a \<Longrightarrow> (\<And>x. keeps p (b x)) \<Longrightarrow> keeps p (case v of None \<Rightarrow> a | Some x \<Rightarrow> b x)"
  by (cases v) auto

lemma keeps_case_list [keeps_intros]:
  "keeps p a \<Longrightarrow> (\<And>x xs. keeps p (b x xs)) \<Longrightarrow> keeps p (case v of [] \<Rightarrow> a | x # xs \<Rightarrow> b x xs)"
  by (cases v) auto

lemma keeps_pushScreenshot: "keeps core (pushScreenshot e nm shot)"
  by (simp add: keeps_def pushScreenshot_def core_def)

lemma keeps_takeScreenshot [keeps_intros]: "keeps core (takeScreenshot e nm)"
  unfolding takeScreenshot_def by (intro keeps_intros keeps_pushScreenshot)

lemma keeps_findAndClickItem [keeps_intros]: "keeps p (findAndClickItem e item)"
  unfolding findAndClickItem_def by (intro keeps_intros)

lemma keeps_applyModifications [keeps_intros]: "keeps p (applyModifications e mods)"
  by (induction mods) (auto intro!: keeps_intros)

lemma keeps_increaseQuantity [keeps_intros]: "keeps p (increaseQuantity e n)"
  by (induction n) (auto intro!: keeps_intros)

lemma keeps_handleItemModal [keeps_intros]: "keeps p (handleItemModal e item)"
  unfolding handleItemModal_def by (intro keeps_intros) (auto intro!: keeps_intros)

lemma keeps_clickFirstSelector [keeps_intros]: "keeps p (clickFirstSelector e sels)"
  by (induction sels) (auto intro!: keeps_intros)

lemma keeps_clickAddToCart [keeps_intros]: "keeps p (clickAddToCart e)"
  unfolding clickAddToCart_def by (intro keeps_intros)

lemma keeps_attemptItem [keeps_intros]: "keeps p (attemptItem e item)"
  unfolding attemptItem_def by (intro keeps_intros) (auto intro!: keeps_intros)

lemma keeps_addItem [keeps_intros]: "keeps p (addItem e item)"
  unfolding addItem_def by (intro keeps_intros)

lemma keeps_addItems [keeps_intros]: "keeps p (addItems e items)"
  by (induction items) (auto intro!: keeps_intros)

lemma keeps_addItemsToCart [keeps_intros]: "keeps p (addItemsToCart e s)"
  unfolding addItemsToCart_def by (intro keeps_intros)

lemma keeps_clickCheckout [keeps_intros]: "keeps p (clickCheckout e)"
  unfolding clickCheckout_def by (intro keeps_intros)

lemma keeps_continueAsGuest [keeps_intros]: "keeps p (continueAsGuest e)"
  unfolding continueAsGuest_def by (intro keeps_intros)

lemma keeps_fillField [keeps_intros]: "keeps p (fillField e sel missing t)"
  unfolding fillField_def by (intro keeps_intros)

lemma keeps_fillGuestInfo [keeps_intros]: "keeps p (fillGuestInfo e nm ph)"
  unfolding fillGuestInfo_def Let_def by (intro keeps_intros) (auto intro!: keeps_intros)

lemma keeps_submitGuestForm [keeps_intros]: "keeps p (submitGuestForm e)"
  unfolding submitGuestForm_def by (intro keeps_intros) (auto intro!: keeps_intros)

lemma keeps_addPickupNotes [keeps_intros]: "keeps p (addPickupNotes e s)"
  unfolding addPickupNotes_def by (intro keeps_intros)

lemma keeps_verifyPaymentMethod [keeps_intros]: "keeps p (verifyPaymentMethod e)"
  unfolding verifyPaymentMethod_def by (intro keeps_intros)

lemma keeps_placeOrderFinal [keeps_intros]: "keeps p (placeOrderFinal e)"
  unfolding placeOrderFinal_def by (intro keeps_intros)

lemma keeps_mono:
  assumes "keeps p m" "\<And>r. q r = g (p r)"
  shows "keeps q m"
  using assms by (simp add: keeps_def)

lemma verdict_core: "verdict r = verdict (core r)"
  by (simp add: verdict_def core_def)

lemma ioSeq_append: "ioSeq (xs @ ys) w = ioThen (ioSeq xs) (ioSeq ys) w"
  by (induction xs arbitrary: w)
     (auto simp: ioThen_def ioBind_def ioReturn_def split: prod.splits sum.splits)

lemma extract_effect:
  "extractConfirmationDetails e w =
     (Inr (), \<lparr>history = history w @ [Evaluate BodyText], res = detailsFrom e w\<rparr>)"
  by (simp add: extractConfirmationDetails_def ioCatch_def ioBind_def callText_def readDetails_def
      ioReturn_def detailsFrom_def Let_def split: sum.splits)

lemma orderSteps_split:
  "orderSteps e od = take 22 (orderSteps e od) @ [extractConfirmationDetails e, setSuccess]"
  by (simp add: orderSteps_def)

lemma keeps_early_steps: "m \<in> set (take 22 (orderSteps e od)) \<Longrightarrow> keeps core m"
  by (auto simp: orderSteps_def intro!: keeps_intros)

lemma keeps_early: "keeps core (ioSeq (take 22 (orderSteps e od)))"
  by (rule keeps_seq) (rule keeps_early_steps)

lemma body_outcome:
  "ioSeq (orderSteps e od) w =
     (case ioSeq (take 22 (orderSteps e od)) w of
        (Inl m, wa) \<Rightarrow> (Inl m, wa)
      | (Inr _, wa) \<Rightarrow>
          (Inr (), \<lparr>history = history wa @ [Evaluate BodyText],
                    res = (detailsFrom e wa)\<lparr>success := True\<rparr>\<rparr>))"
  by (subst orderSteps_split)
     (simp add: ioSeq_append ioThen_def ioBind_def extract_effect setSuccess_def ioReturn_def
        split: prod.splits sum.splits)

lemma keeps_setErrorPageHTML: "keeps verdict (setErrorPageHTML html)"
  by (simp add: keeps_def setErrorPageHTML_def verdict_def)

lemma keeps_verdict_takeScreenshot: "keeps verdict (takeScreenshot e nm)"
  by (rule keeps_mono [OF keeps_takeScreenshot]) (rule verdict_core)

lemma errorState_outcome:
  assumes "errorState e m w = (x, w')"
  shows "success (res w') = success (res w) \<and> error (res w') = Some m"
proof -
  let ?rest = "if screenshotOnError CONFIG
        then ioCatch
               (ioBind (callHandles e Pages)
                  (\<lambda>pages. if pages = [] then ioReturn ()
                            else ioThen (takeScreenshot e ''99-error-state'')
                                   (ioBind (callText e Content) setErrorPageHTML)))
               (\<lambda>_. ioReturn ())
        else ioReturn ()"
  have k: "keeps verdict ?rest"
    by (intro keeps_intros keeps_verdict_takeScreenshot keeps_setErrorPageHTML)
  let ?w1 = "w\<lparr>res := (res w)\<lparr>error := Some m\<rparr>\<rparr>"
  have "errorState e m w = ?rest ?w1"
    by (simp add: errorState_def ioThen_def ioBind_def setError_def)
  with assms have "?rest ?w1 = (x, w')" by simp
  from keepsD [OF k this] show ?thesis by (simp add: verdict_def)
qed

lemma placeOrder_cases:
  assumes "placeOrder e od = (Inr r, h)"
  shows "(\<exists>m. error r = Some m \<and> \<not> success r)
     \<or> (\<exists>wa. core (res wa) = initialResult
            \<and> h = history wa @ [Evaluate BodyText, Close]
            \<and> r = (detailsFrom e wa)\<lparr>success := True\<rparr>)"
proof -
  let ?w0 = "\<lparr>history = [], res = initialResult\<rparr>"
  let ?w1 = "\<lparr>history = [Launch], res = initialResult\<rparr>"
  show ?thesis
  proof (cases "unitResp e [Launch]")
    case (Some m)
    with assms have "r = initialResult\<lparr>error := Some m\<rparr>"
      by (simp add: placeOrder_def callUnit_def)
    then show ?thesis by (simp add: initialResult_def)
  next
    case None
    obtain x wa where pre: "ioSeq (take 22 (orderSteps e od)) ?w1 = (x, wa)"
      by (cases "ioSeq (take 22 (orderSteps e od)) ?w1")
    have c: "core (res wa) = initialResult"
      using keepsD [OF keeps_early pre] by (simp add: core_def initialResult_def)
    show ?thesis
    proof (cases x)
      case (Inl m)
      obtain y wc where es: "errorState e m wa = (y, wc)" by (cases "errorState e m wa")
      from errorState_outcome [OF es] c have v: "\<not> success (res wc)" "error (res wc) = Some m"
        by (auto simp: core_def initialResult_def dest: arg_cong [where f = success])
      from assms None pre Inl es have "r = res wc"
        by (auto simp: placeOrder_def callUnit_def ioFinally_def ioCatch_def body_outcome Let_def
            split: option.splits sum.splits prod.splits)
      with v show ?thesis by simp
    next
      case (Inr u)
      from assms None pre Inr have "r = (detailsFrom e wa)\<lparr>success := True\<rparr>
          \<and> h = history wa @ [Evaluate BodyText, Close]"
        by (auto simp: placeOrder_def callUnit_def ioFinally_def ioCatch_def body_outcome Let_def
            split: option.splits sum.splits prod.splits)
      with c show ?thesis by blast
    qed
  qed
qed

lemma details_success [simp]:
  "success (detailsFrom e w) = success (res w)" "error (detailsFrom e w) = error (res w)"
  by (simp_all add: detailsFrom_def setTotalAmount_def setPickupTime_def setConfirmationNumber_def
      Let_def split: sum.splits option.splits)

text \<open>
  Claim C7. Whenever \<open>placeOrder\<close> returns a result, its error is set exactly when its
  success flag is false.
\<close>

theorem error_iff_not_success: "placeOrder e od = (Inr r, h) \<Longrightarrow> (success r \<longleftrightarrow> error r = None)"
proof -
  assume "placeOrder e od = (Inr r, h)"
  from placeOrder_cases [OF this] show ?thesis
  proof
    assume "\<exists>m. error r = Some m \<and> \<not> success r"
    then show ?thesis by auto
  next
    assume "\<exists>wa. core (res wa) = initialResult \<and> h = history wa @ [Evaluate BodyText, Close]
        \<and> r = (detailsFrom e wa)\<lparr>success := True\<rparr>"
    then obtain wa where c: "core (res wa) = initialResult" and r: "r = (detailsFrom e wa)\<lparr>success := True\<rparr>"
      by blast
    from c have "error (res wa) = None"
      by (auto simp: core_def initialResult_def dest: arg_cong [where f = error])
    with r show ?thesis by simp
  qed
qed

lemma confirmationNumber_set:
  "confirmationNumber (setConfirmationNumber t r) \<noteq> None"
  "firstMatch orderNumberPatterns t = None \<Longrightarrow> confirmationNumber r = None \<Longrightarrow>
     confirmationNumber (setConfirmationNumber t r) = Some ''ORDER_PLACED_NO_NUMBER''"
  by (auto simp: setConfirmationNumber_def falsy_def Let_def split: option.splits)

lemma pickupTime_set:
  "estimatedPickupTime (setPickupTime t r) \<noteq> None"
  "firstMatch pickupPatterns t = None \<Longrightarrow> estimatedPickupTime r = None \<Longrightarrow>
     estimatedPickupTime (setPickupTime t r) = Some ''30-40 minutes''"
  by (auto simp: setPickupTime_def falsy_def Let_def split: option.splits)

lemma other_fields:
  "confirmationNumber (setTotalAmount t r) = confirmationNumber r"
  "estimatedPickupTime (setTotalAmount t r) = estimatedPickupTime r"
  "confirmationNumber (setPickupTime t r) = confirmationNumber r"
  "estimatedPickupTime (setConfirmationNumber t r) = estimatedPickupTime r"
  by (simp_all add: setTotalAmount_def setPickupTime_def setConfirmationNumber_def Let_def
      split: option.splits)

text \<open>
  Claim C2, amended. Whenever \<open>placeOrder\<close> returns with success, the last two calls were
  the reading of the page's text and the closing of the browser. If the text was read, the
  confirmation number and the pickup time are set: to the placeholder
  \<^verbatim>\<open>ORDER_PLACED_NO_NUMBER\<close> when no order-number pattern matches the text, to the default
  \<^verbatim>\<open>30-40 minutes\<close> when no pickup-time pattern matches. If reading the text threw, both
  stay null.
\<close>

theorem confirmation_fields_after_success:
  assumes "placeOrder e od = (Inr r, h)" and "success r"
  shows "\<exists>h0. h = h0 @ [Evaluate BodyText, Close] \<and>
     (case textResp e (h0 @ [Evaluate BodyText]) of
        Inl _ \<Rightarrow> confirmationNumber r = None \<and> estimatedPickupTime r = None
      | Inr pageText \<Rightarrow>
          confirmationNumber r \<noteq> None \<and> estimatedPickupTime r \<noteq> None
          \<and> (firstMatch orderNumberPatterns pageText = None \<longrightarrow>
               confirmationNumber r = Some ''ORDER_PLACED_NO_NUMBER'')
          \<and> (firstMatch pickupPatterns pageText = None \<longrightarrow>
               estimatedPickupTime r = Some ''30-40 minutes''))"
proof -
  from placeOrder_cases [OF assms(1)] assms(2)
  obtain wa where c: "core (res wa) = initialResult"
    and h: "h = history wa @ [Evaluate BodyText, Close]"
    and r: "r = (detailsFrom e wa)\<lparr>success := True\<rparr>"
    by blast
  from c have n: "confirmationNumber (res wa) = None" "estimatedPickupTime (res wa) = None"
    by (auto simp: core_def initialResult_def dest: arg_cong [where f = confirmationNumber]
        arg_cong [where f = estimatedPickupTime])
  have "case textResp e (history wa @ [Evaluate BodyText]) of
        Inl _ \<Rightarrow> confirmationNumber r = None \<and> estimatedPickupTime r = None
      | Inr pageText \<Rightarrow>
          confirmationNumber r \<noteq> None \<and> estimatedPickupTime r \<noteq> None
          \<and> (firstMatch orderNumberPatterns pageText = None \<longrightarrow>
               confirmationNumber r = Some ''ORDER_PLACED_NO_NUMBER'')
          \<and> (firstMatch pickupPatterns pageText = None \<longrightarrow>
               estimatedPickupTime r = Some ''30-40 minutes'')"
    using n by (simp add: r detailsFrom_def other_fields confirmationNumber_set pickupTime_set
        split: sum.splits)
  with h show ?thesis by blast
qed


subsection \<open>Guest information\<close>

lemma typedTexts_append [simp]: "typedTexts (xs @ ys) = typedTexts xs @ typedTexts ys"
  by (simp add: typedTexts_def)

lemma typedTexts_simps [simp]:
  "typedTexts [] = []"
  "typedTexts (TypeInto n t # h) = t # typedTexts h"
  "typedTexts (Query s # h) = typedTexts h"
  "typedTexts (ClickHandle n # h) = typedTexts h"
  by (simp_all add: typedTexts_def)

lemma types_return: "types (ioReturn ()) []"
  by (simp add: types_def ioReturn_def)

lemma types_then:
  assumes m: "types m ts" and n: "types n us"
  shows "types (ioThen m n) (ts @ us)"
  unfolding types_def
proof (intro allI impI)
  fix w x w'
  assume run: "ioThen m n w = (x, w')"
  obtain y w1 where mw: "m w = (y, w1)" by (cases "m w")
  from m mw obtain new1 where 1: "history w1 = history w @ new1" "prefix (typedTexts new1) ts"
      "y = Inr () \<longrightarrow> typedTexts new1 = ts"
    unfolding types_def by blast
  show "\<exists>new. history w' = history w @ new \<and> prefix (typedTexts new) (ts @ us)
      \<and> (x = Inr () \<longrightarrow> typedTexts new = ts @ us)"
  proof (cases y)
    case (Inl err)
    with run mw have "x = Inl err" "w' = w1" by (simp_all add: ioThen_def ioBind_def)
    with 1 show ?thesis by (auto intro: prefix_order.trans)
  next
    case (Inr u)
    with run mw have nw: "n w1 = (x, w')" by (simp add: ioThen_def ioBind_def)
    from n nw obtain new2 where 2: "history w' = history w1 @ new2" "prefix (typedTexts new2) us"
        "x = Inr () \<longrightarrow> typedTexts new2 = us"
      unfolding types_def by blast
    from 1 Inr have t1: "typedTexts new1 = ts" by simp
    have "history w' = history w @ (new1 @ new2)" using 1 2 by simp
    moreover have "prefix (typedTexts (new1 @ new2)) (ts @ us)" using t1 2 by simp
    moreover have "x = Inr () \<longrightarrow> typedTexts (new1 @ new2) = ts @ us" using t1 2 by simp
    ultimately show ?thesis by blast
  qed
qed

lemma types_rethrow:
  assumes "types m ts"
  shows "types (ioCatch m (\<lambda>err. ioThrow (f err))) ts"
  unfolding types_def
proof (intro allI impI)
  fix w x w'
  assume run: "ioCatch m (\<lambda>err. ioThrow (f err)) w = (x, w')"
  obtain y w1 where mw: "m w = (y, w1)" by (cases "m w")
  from assms mw obtain new where 1: "history w1 = history w @ new" "prefix (typedTexts new) ts"
      "y = Inr () \<longrightarrow> typedTexts new = ts"
    unfolding types_def by blast
  from run mw have "w' = w1"
    by (cases y) (simp_all add: ioCatch_def ioThrow_def)
  moreover from run mw have "x = Inr () \<longrightarrow> y = Inr ()"
    by (cases y) (auto simp: ioCatch_def ioThrow_def)
  ultimately show "\<exists>new. history w' = history w @ new \<and> prefix (typedTexts new) ts
      \<and> (x = Inr () \<longrightarrow> typedTexts new = ts)" using 1 by blast
qed

lemma types_fillField: "types (fillField e sel missing t) [t]"
  unfolding types_def
proof (intro allI impI)
  fix w x w'
  assume run: "fillField e sel missing t w = (x, w')"
  let ?h1 = "history w @ [Query sel]"
  show "\<exists>new. history w' = history w @ new \<and> prefix (typedTexts new) [t]
      \<and> (x = Inr () \<longrightarrow> typedTexts new = [t])"
  proof (cases "handleResp e ?h1")
    case (Inl err)
    with run have "history w' = history w @ [Query sel]" "x = Inl err"
      by (auto simp: fillField_def ioBind_def callHandle_def Let_def)
    then show ?thesis by (intro exI [of _ "[Query sel]"]) simp
  next
    case (Inr input)
    show ?thesis
    proof (cases input)
      case None
      with run Inr have "history w' = history w @ [Query sel]" "x = Inl missing"
        by (auto simp: fillField_def ioBind_def callHandle_def ioThrow_def Let_def)
      then show ?thesis by (intro exI [of _ "[Query sel]"]) simp
    next
      case (Some n)
      show ?thesis
      proof (cases "unitResp e (?h1 @ [ClickHandle n])")
        case (Some err)
        with run Inr \<open>input = Some n\<close>
        have "history w' = history w @ [Query sel, ClickHandle n]" "x = Inl err"
          by (auto simp: fillField_def ioBind_def ioThen_def callHandle_def callUnit_def Let_def)
        then show ?thesis by (intro exI [of _ "[Query sel, ClickHandle n]"]) simp
      next
        case None
        with run Inr \<open>input = Some n\<close>
        have "history w' = history w @ [Query sel, ClickHandle n, TypeInto n t]"
          by (auto simp: fillField_def ioBind_def ioThen_def callHandle_def callUnit_def Let_def
              split: option.splits)
        then show ?thesis by (intro exI [of _ "[Query sel, ClickHandle n, TypeInto n t]"]) simp
      qed
    qed
  qed
qed

lemma removeNonDigits_filter: "removeNonDigits s = filter isDigit s"
  by (simp add: removeNonDigits_def)

text \<open>
  What \<open>fillGuestInfo\<close> types, for every customer name and phone: in this order, the first
  piece of the name split at the space character, the literal PAM, the bot's email address
  and the phone with every character that is not a digit removed; all four when it
  succeeds, the first few of them when it fails.
\<close>

theorem fillGuestInfo_typed_texts:
  assumes "fillGuestInfo e customerName customerPhone w = (x, w')"
  shows "\<exists>new. history w' = history w @ new
     \<and> prefix (typedTexts new)
          [takeWhile (\<lambda>c. c \<noteq> CHR '' '') customerName, ''PAM'', botEmail CONFIG,
           filter isDigit customerPhone]
     \<and> (x = Inr () \<longrightarrow> typedTexts new =
          [takeWhile (\<lambda>c. c \<noteq> CHR '' '') customerName, ''PAM'', botEmail CONFIG,
           filter isDigit customerPhone])"
proof -
  have "types (fillGuestInfo e customerName customerPhone)
      ([hd (splitChar CHR '' '' customerName)] @ [botLastName CONFIG] @ [botEmail CONFIG]
        @ [removeNonDigits customerPhone] @ [])"
    unfolding fillGuestInfo_def Let_def ioSeq.simps
    by (intro types_rethrow types_then types_fillField types_return)
  then have "types (fillGuestInfo e customerName customerPhone)
      [takeWhile (\<lambda>c. c \<noteq> CHR '' '') customerName, ''PAM'', botEmail CONFIG,
       filter isDigit customerPhone]"
    by (simp add: hd_splitChar removeNonDigits_filter CONFIG_def)
  with assms show ?thesis unfolding types_def by blast
qed


subsection \<open>The cart builder\<close>

lemma addItems_append: "addItems e (xs @ ys) w = ioThen (addItems e xs) (addItems e ys) w"
  by (induction xs arbitrary: w)
     (auto simp: ioThen_def ioBind_def ioReturn_def split: prod.splits sum.splits)

text \<open>
  Claim C3. If the items before item \<open>k\<close> are added and the attempt to add item \<open>k\<close>
  throws, \<open>addItemsToCart\<close> throws a failure that names item \<open>k\<close> and carries the cause,
  in the world the failed attempt left: no call is made for a later item, and the outcome
  is that of the order cut after item \<open>k\<close>.
\<close>

theorem cart_builder_fails_fast:
  assumes items: "items = parseOrderItems orderItems" and k: "k < length items"
    and before: "addItems e (take k items) w = (Inr (), w1)"
    and fails: "attemptItem e (items ! k) w1 = (Inl cause, w2)"
  shows "addItemsToCart e orderItems w =
       (Inl (''Failed to add '' @ name (items ! k) @ '' to cart: '' @ cause), w2)
     \<and> addItems e (take (Suc k) items) w = addItemsToCart e orderItems w"
proof -
  let ?msg = "''Failed to add '' @ name (items ! k) @ '' to cart: '' @ cause"
  have one: "addItem e (items ! k) w1 = (Inl ?msg, w2)"
    using fails by (simp add: addItem_def ioCatch_def ioThrow_def)
  have split1: "take k items @ items ! k # drop (Suc k) items = items"
    using k by (simp add: id_take_nth_drop [symmetric])
  have split2: "take k items @ [items ! k] = take (Suc k) items"
    using k by (simp add: take_Suc_conv_app_nth)
  have gen: "addItems e (take k items @ items ! k # rest) w = (Inl ?msg, w2)" for rest
    using before one by (simp add: addItems_append ioThen_def ioBind_def)
  have "addItems e items w = (Inl ?msg, w2)"
    using gen [of "drop (Suc k) items"] by (simp only: split1)
  moreover have "addItems e (take (Suc k) items) w = (Inl ?msg, w2)"
    using gen [of "[]"] by (simp only: split2)
  ultimately have "addItems e items w = (Inl ?msg, w2)"
    "addItems e (take (Suc k) items) w = (Inl ?msg, w2)" by simp_all
  then show ?thesis by (simp add: addItemsToCart_def items)
qed

lemmas io_defs = ioReturn_def ioThrow_def ioBind_def ioThen_def ioCatch_def ioFinally_def
  callUnit_def callText_def callBool_def callHandle_def callHandles_def clickHandle_def

lemmas step_defs = takeScreenshot_def pushScreenshot_def addItemsToCart_def addItem_def
  attemptItem_def findAndClickItem_def handleItemModal_def clickAddToCart_def clickCheckout_def
  continueAsGuest_def fillGuestInfo_def fillField_def submitGuestForm_def addPickupNotes_def
  verifyPaymentMethod_def placeOrderFinal_def extractConfirmationDetails_def readDetails_def
  setSuccess_def setError_def setErrorPageHTML_def errorState_def hasInstructions_def

lemmas weak_congs = prod.case_cong_weak sum.case_cong_weak option.case_cong_weak
  list.case_cong_weak if_weak_cong


section \<open>The theorems on concrete orders\<close>

text \<open>
  Each theorem with a hypothesis is applied to a concrete input, each amended claim comes
  with the input on which the claim as first stated fails, and the code is run on the names
  for which it does not type the first word.
\<close>

lemma parse_wings:
  "parseOrderItems ''wings'' =
     [\<lparr>raw = ''wings'', name = ''2lb Wings'', quantity = 1, modifications = []\<rparr>]"
  by code_simp

lemma first_name_John: "hd (splitChar CHR '' '' ''John Smith'') = ''John''"
  by code_simp

lemma phone_digits: "removeNonDigits ''416-555-1234'' = ''4165551234''"
  by code_simp

lemma no_patterns_in_ok:
  "firstMatch orderNumberPatterns ''ok'' = None" "firstMatch pickupPatterns ''ok'' = None"
  "firstMatch totalPatterns ''ok'' = None"
  by code_simp+

lemma early_steady:
  "\<exists>wa. ioSeq (take 22 (orderSteps (steadyEnv ''ok'') order1))
      \<lparr>history = [Launch], res = initialResult\<rparr> = (Inr (), wa)"
  by (simp add: orderSteps_def steadyEnv_def order1_def io_defs step_defs
      parse_wings first_name_John phone_digits initialResult_def CONFIG_def Let_def
      cong: weak_congs)

lemma run_steady:
  "\<exists>r h. placeOrder (steadyEnv ''ok'') order1 = (Inr r, h) \<and> success r"
proof -
  from early_steady obtain wa where
    "ioSeq (take 22 (orderSteps (steadyEnv ''ok'') order1))
      \<lparr>history = [Launch], res = initialResult\<rparr> = (Inr (), wa)" by blast
  then show ?thesis
    by (simp add: placeOrder_def callUnit_def ioFinally_def ioCatch_def body_outcome steadyEnv_def)
qed

theorem confirmation_fields_after_success_witness:
  "\<exists>r h. placeOrder (steadyEnv ''ok'') order1 = (Inr r, h) \<and> success r
     \<and> confirmationNumber r = Some ''ORDER_PLACED_NO_NUMBER''
     \<and> estimatedPickupTime r = Some ''30-40 minutes''"
proof -
  from run_steady obtain r h where run: "placeOrder (steadyEnv ''ok'') order1 = (Inr r, h)"
    and s: "success r" by blast
  from confirmation_fields_after_success [OF run s] obtain h0 where
    "case textResp (steadyEnv ''ok'') (h0 @ [Evaluate BodyText]) of
        Inl _ \<Rightarrow> confirmationNumber r = None \<and> estimatedPickupTime r = None
      | Inr pageText \<Rightarrow>
          confirmationNumber r \<noteq> None \<and> estimatedPickupTime r \<noteq> None
          \<and> (firstMatch orderNumberPatterns pageText = None \<longrightarrow>
               confirmationNumber r = Some ''ORDER_PLACED_NO_NUMBER'')
          \<and> (firstMatch pickupPatterns pageText = None \<longrightarrow>
               estimatedPickupTime r = Some ''30-40 minutes'')" by blast
  then have "confirmationNumber r = Some ''ORDER_PLACED_NO_NUMBER''
     \<and> estimatedPickupTime r = Some ''30-40 minutes''"
    by (simp add: steadyEnv_def no_patterns_in_ok)
  with run s show ?thesis by blast
qed

theorem error_iff_not_success_witness:
  "\<exists>r h. placeOrder (steadyEnv ''ok'') order1 = (Inr r, h) \<and> success r \<and> error r = None"
proof -
  from run_steady obtain r h where run: "placeOrder (steadyEnv ''ok'') order1 = (Inr r, h)"
    and s: "success r" by blast
  from error_iff_not_success [OF run] s have "error r = None" by simp
  with run s show ?thesis by blast
qed

lemma early_lostPage:
  "\<exists>wa. ioSeq (take 22 (orderSteps lostPageEnv order1)) \<lparr>history = [Launch], res = initialResult\<rparr>
     = (Inr (), wa)"
  by (simp add: orderSteps_def lostPageEnv_def steadyEnv_def order1_def io_defs step_defs
      parse_wings first_name_John phone_digits initialResult_def CONFIG_def Let_def
      cong: weak_congs)

text \<open>
  In a browser where every step works and only the reading of the confirmation page's text
  throws, the order of \<open>order1\<close> succeeds with no confirmation number and no pickup time.
\<close>

theorem success_without_confirmation_counterexample:
  "\<exists>r h. placeOrder lostPageEnv order1 = (Inr r, h) \<and> success r
     \<and> confirmationNumber r = None \<and> estimatedPickupTime r = None"
proof -
  from early_lostPage obtain wa where
    1: "ioSeq (take 22 (orderSteps lostPageEnv order1)) \<lparr>history = [Launch], res = initialResult\<rparr>
       = (Inr (), wa)" by blast
  from keepsD [OF keeps_early 1] have "core (res wa) = initialResult"
    by (simp add: core_def initialResult_def)
  then have 2: "confirmationNumber (res wa) = None" "estimatedPickupTime (res wa) = None"
    by (auto simp: core_def initialResult_def dest: arg_cong [where f = confirmationNumber]
        arg_cong [where f = estimatedPickupTime])
  have 3: "unitResp lostPageEnv h = None"
    "textResp lostPageEnv (h @ [Evaluate BodyText]) = Inl ''Execution context was destroyed''" for h
    by (simp_all add: lostPageEnv_def steadyEnv_def)
  show ?thesis
    by (simp add: placeOrder_def callUnit_def ioFinally_def ioCatch_def body_outcome 1 2 3
        detailsFrom_def)
qed

theorem parseOrderItems_one_item_per_segment_witness:
  "map raw (parseOrderItems ''2 wings, bruschetta'') = [''2 wings'', ''bruschetta'']
   \<and> length (parseOrderItems ''2 wings, bruschetta'') = 2
   \<and> parseOrderItems ''2 wings, bruschetta'' ! 1 = parseItem ''bruschetta''"
proof -
  have sp: "splitChar CHR '','' ''2 wings, bruschetta'' = [''2 wings'', '' bruschetta'']"
    by code_simp
  have tr: "trim ''2 wings'' = ''2 wings''" "trim '' bruschetta'' = ''bruschetta''"
    by code_simp+
  have cnt: "count_list ''2 wings, bruschetta'' CHR '','' = 1" by code_simp
  from parseOrderItems_one_item_per_segment [of "''2 wings, bruschetta''"]
  have a: "map raw (parseOrderItems ''2 wings, bruschetta'') = map trim (splitChar CHR '','' ''2 wings, bruschetta'')"
    and b: "length (parseOrderItems ''2 wings, bruschetta'') = Suc (count_list ''2 wings, bruschetta'' CHR '','')"
    and c: "\<forall>i < length (splitChar CHR '','' ''2 wings, bruschetta'').
        parseOrderItems ''2 wings, bruschetta'' ! i = parseItem (trim (splitChar CHR '','' ''2 wings, bruschetta'' ! i))"
    by blast+
  from c have "parseOrderItems ''2 wings, bruschetta'' ! 1 = parseItem ''bruschetta''"
    unfolding sp by (simp add: tr)
  moreover from a have "map raw (parseOrderItems ''2 wings, bruschetta'') = [''2 wings'', ''bruschetta'']"
    unfolding sp by (simp add: tr)
  moreover from b have "length (parseOrderItems ''2 wings, bruschetta'') = 2"
    unfolding cnt by simp
  ultimately show ?thesis by blast
qed

text \<open>
  The segment \<^verbatim>\<open>0 wings\<close> is parsed to an item of quantity 0: the leading integer is taken
  as it stands.
\<close>

theorem quantity_zero_counterexample:
  "parseOrderItems ''0 wings'' =
     [\<lparr>raw = ''0 wings'', name = ''2lb Wings'', quantity = 0, modifications = []\<rparr>]"
  by code_simp

theorem quantity_of_leading_integer_witness:
  "parseItem ''0 wings'' \<in> set (parseOrderItems ''0 wings'')
   \<and> leadingInteger ''0 wings'' \<and> parseInt (takeWhile isDigit ''0 wings'') < 2 ^ 53
   \<and> quantity (parseItem ''0 wings'') = 0
   \<and> modifications (parseItem ''0 wings'') = []
   \<and> parseItem ''12 wings'' \<in> set (parseOrderItems ''12 wings'')
   \<and> leadingInteger ''12 wings'' \<and> parseInt (takeWhile isDigit ''12 wings'') < 2 ^ 53
   \<and> quantity (parseItem ''12 wings'') = 12"
proof -
  have m: "parseItem ''0 wings'' \<in> set (parseOrderItems ''0 wings'')"
    by (simp add: parseOrderItems_def trim_def isSpace_def)
  have r: "raw (parseItem ''0 wings'') = ''0 wings''" by (rule raw_parseItem)
  have li: "leadingInteger ''0 wings''" by code_simp
  have v: "parseInt (takeWhile isDigit ''0 wings'') = 0" by code_simp
  have b: "parseInt (takeWhile isDigit ''0 wings'') < 2 ^ 53" unfolding v by simp
  have z: "\<forall>c\<in>set (takeWhile isDigit ''0 wings''). c = CHR ''0''" by code_simp
  have w: "indexOf (toLowerCase (snd (stripQuantity ''0 wings''))) '' with '' = - 1" by code_simp
  have m': "parseItem ''12 wings'' \<in> set (parseOrderItems ''12 wings'')"
    by (simp add: parseOrderItems_def trim_def isSpace_def)
  have r': "raw (parseItem ''12 wings'') = ''12 wings''" by (rule raw_parseItem)
  have li': "leadingInteger ''12 wings''" by code_simp
  have v': "parseInt (takeWhile isDigit ''12 wings'') = 12" by code_simp
  have b': "parseInt (takeWhile isDigit ''12 wings'') < 2 ^ 53" unfolding v' by simp
  from quantity_of_leading_integer [OF m] li b z w
  have 1: "quantity (parseItem ''0 wings'') = 0 \<and> modifications (parseItem ''0 wings'') = []"
    unfolding r by blast
  from quantity_of_leading_integer [OF m'] li' b' v'
  have 2: "quantity (parseItem ''12 wings'') = 12"
    unfolding r' by simp
  from 1 2 m li b m' li' b' show ?thesis by blast
qed

theorem catch_all_takes_first_capitalized_word_witness:
  "firstMatch (take 3 orderNumberPatterns) ''Thank you!'' = None
   \<and> find isCapitalized (wordsOf ''Thank you!'') = Some ''Thank''
   \<and> confirmationNumber (res (snd (extractConfirmationDetails (steadyEnv ''Thank you!'') freshWorld)))
       = Some ''Thank''"
proof -
  have a: "textResp (steadyEnv ''Thank you!'') (history freshWorld @ [Evaluate BodyText]) = Inr ''Thank you!''"
    by (simp add: steadyEnv_def)
  have b: "firstMatch (take 3 orderNumberPatterns) ''Thank you!'' = None" by code_simp
  have c: "find isCapitalized (wordsOf ''Thank you!'') = Some ''Thank''" by code_simp
  from catch_all_takes_first_capitalized_word [OF a b c] b c show ?thesis by blast
qed

text \<open>
  Claim C4. The first name typed into the guest form is to be the first token of the
  customer name delimited by whitespace, as the comment in the source says too
  (\<^verbatim>\<open>take first word as first name\<close>). The code does not do this: it takes
  \<^verbatim>\<open>customerName.split(' ')[0]\<close>, the piece before the first space character. For the
  name \<^verbatim>\<open>John<TAB>Smith\<close> it types the whole name where the first token is \<^verbatim>\<open>John\<close>,
  and for the name \<^verbatim>\<open> Ann Lee\<close>, which starts with a space, it types the empty text
  where the first token is \<^verbatim>\<open>Ann\<close>. The last name and the phone are typed as the claim
  says.
\<close>

theorem guest_first_name_not_first_word:
  "typedTexts (history (snd (fillGuestInfo (steadyEnv []) (''John'' @ [CHR 0x09] @ ''Smith'') ''1'' freshWorld)))
     = [''John'' @ [CHR 0x09] @ ''Smith'', ''PAM'', ''yousef.alyeldin5@gmial.com'', ''1'']
   \<and> firstWhitespaceToken (''John'' @ [CHR 0x09] @ ''Smith'') = ''John''
   \<and> typedTexts (history (snd (fillGuestInfo (steadyEnv []) '' Ann Lee'' ''1'' freshWorld)))
     = [[], ''PAM'', ''yousef.alyeldin5@gmial.com'', ''1'']
   \<and> firstWhitespaceToken '' Ann Lee'' = ''Ann''"
proof -
  have a: "hd (splitChar CHR '' '' (''John'' @ [CHR 0x09] @ ''Smith'')) = ''John'' @ [CHR 0x09] @ ''Smith''"
    by code_simp
  have a': "hd (splitChar CHR '' '' '' Ann Lee'') = []" by code_simp
  have b: "removeNonDigits ''1'' = ''1''" by code_simp
  have c: "firstWhitespaceToken (''John'' @ [CHR 0x09] @ ''Smith'') = ''John''" by code_simp
  have c': "firstWhitespaceToken '' Ann Lee'' = ''Ann''" by code_simp
  have "typedTexts (history (snd (fillGuestInfo (steadyEnv []) (''John'' @ [CHR 0x09] @ ''Smith'') ''1'' freshWorld)))
     = [''John'' @ [CHR 0x09] @ ''Smith'', ''PAM'', ''yousef.alyeldin5@gmial.com'', ''1'']"
    by (simp add: fillGuestInfo_def fillField_def a b io_defs steadyEnv_def freshWorld_def CONFIG_def Let_def
        cong: weak_congs)
  moreover have "typedTexts (history (snd (fillGuestInfo (steadyEnv []) '' Ann Lee'' ''1'' freshWorld)))
     = [[], ''PAM'', ''yousef.alyeldin5@gmial.com'', ''1'']"
    by (simp add: fillGuestInfo_def fillField_def a' b io_defs steadyEnv_def freshWorld_def CONFIG_def Let_def
        cong: weak_congs)
  ultimately show ?thesis using c c' by blast
qed

theorem fillGuestInfo_typed_texts_scenario:
  "fst (fillGuestInfo (steadyEnv []) ''John Smith'' ''416-555-1234'' freshWorld) = Inr ()
   \<and> typedTexts (history (snd (fillGuestInfo (steadyEnv []) ''John Smith'' ''416-555-1234'' freshWorld)))
     = [''John'', ''PAM'', ''yousef.alyeldin5@gmial.com'', ''4165551234'']"
proof -
  obtain x w' where run: "fillGuestInfo (steadyEnv []) ''John Smith'' ''416-555-1234'' freshWorld = (x, w')"
    by (cases "fillGuestInfo (steadyEnv []) ''John Smith'' ''416-555-1234'' freshWorld")
  have ok: "fst (fillGuestInfo (steadyEnv []) ''John Smith'' ''416-555-1234'' freshWorld) = Inr ()"
    by (simp add: fillGuestInfo_def fillField_def io_defs steadyEnv_def freshWorld_def Let_def
        cong: weak_congs)
  with run have x: "x = Inr ()" by simp
  have f: "takeWhile (\<lambda>c. c \<noteq> CHR '' '') ''John Smith'' = ''John''" by code_simp
  have d: "filter isDigit ''416-555-1234'' = ''4165551234''" by code_simp
  have e: "botEmail CONFIG = ''yousef.alyeldin5@gmial.com''" by (simp add: CONFIG_def)
  from fillGuestInfo_typed_texts [OF run] x obtain new where
    "history w' = history freshWorld @ new"
    "typedTexts new = [''John'', ''PAM'', ''yousef.alyeldin5@gmial.com'', ''4165551234'']"
    unfolding f d e by blast
  then have "typedTexts (history w') = [''John'', ''PAM'', ''yousef.alyeldin5@gmial.com'', ''4165551234'']"
    by (simp add: freshWorld_def)
  with run ok show ?thesis by simp
qed

theorem wings_default_2lb_witness:
  "parseItem ''wings'' \<in> set (parseOrderItems ''wings'')
   \<and> includesStr (toLowerCase (candidateName (snd (stripQuantity ''wings'')))) ''wing''
   \<and> name (parseItem ''wings'') = ''2lb Wings''"
proof -
  let ?n = "toLowerCase (candidateName (snd (stripQuantity (raw (parseItem ''wings'')))))"
  have r: "raw (parseItem ''wings'') = ''wings''" by (rule raw_parseItem)
  have m: "parseItem ''wings'' \<in> set (parseOrderItems ''wings'')"
    by (simp add: parseOrderItems_def trim_def isSpace_def)
  have a: "includesStr ?n ''wing''" unfolding r by code_simp
  have b: "\<not> includesStr ?n ''bruschetta''" unfolding r by code_simp
  have c: "\<not> includesStr ?n ''1lb''" unfolding r by code_simp
  have d: "\<not> includesStr ?n ''one lb''" unfolding r by code_simp
  from wings_default_2lb [OF m refl a b c d] m a show ?thesis unfolding r by blast
qed

text \<open>
  The name \<^verbatim>\<open>bruschetta and wings\<close> contains \<^verbatim>\<open>wing\<close> and no weight, and is mapped to
  Bruschetta: the first rule of the chain wins.
\<close>

theorem wings_counterexample:
  "parseItem ''bruschetta and wings'' \<in> set (parseOrderItems ''bruschetta and wings'')
   \<and> includesStr (toLowerCase (candidateName (snd (stripQuantity ''bruschetta and wings'')))) ''wing''
   \<and> \<not> includesStr (toLowerCase (candidateName (snd (stripQuantity ''bruschetta and wings'')))) ''1lb''
   \<and> \<not> includesStr (toLowerCase (candidateName (snd (stripQuantity ''bruschetta and wings'')))) ''one lb''
   \<and> name (parseItem ''bruschetta and wings'') = ''Bruschetta''
   \<and> ''Bruschetta'' \<noteq> ''2lb Wings''"
proof -
  have m: "parseItem ''bruschetta and wings'' \<in> set (parseOrderItems ''bruschetta and wings'')"
    by (simp add: parseOrderItems_def trim_def isSpace_def)
  have "includesStr (toLowerCase (candidateName (snd (stripQuantity ''bruschetta and wings'')))) ''wing''"
    "\<not> includesStr (toLowerCase (candidateName (snd (stripQuantity ''bruschetta and wings'')))) ''1lb''"
    "\<not> includesStr (toLowerCase (candidateName (snd (stripQuantity ''bruschetta and wings'')))) ''one lb''"
    "name (parseItem ''bruschetta and wings'') = ''Bruschetta''"
    by code_simp+
  with m show ?thesis by simp
qed

theorem canonical_names_fixed_witness: "normalizeName ''Angus Burger'' = ''Angus Burger''"
proof -
  have "''Angus Burger'' \<in> set canonicalNames" by (simp add: canonicalNames_def)
  with canonical_names_fixed show ?thesis by blast
qed

lemma items3:
  "parseOrderItems ''wings, quesadilla, burger'' =
     [\<lparr>raw = ''wings'', name = ''2lb Wings'', quantity = 1, modifications = []\<rparr>,
      \<lparr>raw = ''quesadilla'', name = ''Quesadilla'', quantity = 1, modifications = []\<rparr>,
      \<lparr>raw = ''burger'', name = ''Angus Burger'', quantity = 1, modifications = []\<rparr>]"
  by code_simp

theorem cart_builder_fails_fast_witness:
  "\<exists>w2. addItemsToCart noQuesadillaEnv ''wings, quesadilla, burger'' freshWorld =
       (Inl ''Failed to add Quesadilla to cart: Could not find menu item: Quesadilla'', w2)
     \<and> EvaluateHandle (FindItemExact ''Angus Burger'') \<notin> set (history w2)
     \<and> last (history w2) = XPath (lowerXPath ''Quesadilla'')"
proof -
  let ?items = "parseOrderItems ''wings, quesadilla, burger''"
  have k: "1 < length ?items" by (simp add: items3)
  obtain w1 where b: "addItems noQuesadillaEnv (take 1 ?items) freshWorld = (Inr (), w1)"
    and h1: "history w1 = [EvaluateHandle (FindItemExact ''2lb Wings''), ClickHandle 0,
        WaitForTimeout 2000, Evaluate HasRequiredSelection, Evaluate ClickAddToCartButton,
        WaitForTimeout 1500]"
    by (simp add: items3 noQuesadillaEnv_def steadyEnv_def freshWorld_def addItem_def attemptItem_def
        findAndClickItem_def handleItemModal_def clickAddToCart_def io_defs Let_def
        cong: weak_congs)
  obtain w2 where f: "attemptItem noQuesadillaEnv (?items ! 1) w1 =
        (Inl ''Could not find menu item: Quesadilla'', w2)"
    and h2: "history w2 = history w1 @ [EvaluateHandle (FindItemExact ''Quesadilla''),
        Evaluate (ClickItemPartial ''Quesadilla''), XPath (lowerXPath ''Quesadilla'')]"
    by (simp add: items3 noQuesadillaEnv_def steadyEnv_def attemptItem_def
        findAndClickItem_def io_defs Let_def cong: weak_congs)
  have n: "name (?items ! 1) = ''Quesadilla''" by (simp add: items3)
  from cart_builder_fails_fast [OF refl k b f] have
    "addItemsToCart noQuesadillaEnv ''wings, quesadilla, burger'' freshWorld =
       (Inl ''Failed to add Quesadilla to cart: Could not find menu item: Quesadilla'', w2)"
    unfolding n by simp
  moreover have "EvaluateHandle (FindItemExact ''Angus Burger'') \<notin> set (history w2)"
    "last (history w2) = XPath (lowerXPath ''Quesadilla'')"
    by (simp_all add: h1 h2)
  ultimately show ?thesis by blast
qed

end
